theory Spec2Isabelle
  imports Main "HOL-Library.Sublist"
begin

section \<open>Strings\<close>

text \<open>
  A JavaScript string is modelled as an Isabelle \<open>string\<close> (a list of 8-bit
  characters). The model is exact for ASCII text: case mapping, white space and the
  classes \<open>\s\<close>, \<open>\w\<close>, \<open>\d\<close> are given by their ASCII definitions, and a
  character above 127 is an inert symbol (no case, not white space, not a word
  character). The two non-ASCII dashes in the punctuation class of \<open>cleanTaskText\<close>
  have no counterpart in this character type.
\<close>

definition isSpace :: "char \<Rightarrow> bool" where
  "isSpace c = ((of_char c :: nat) \<in> {9, 10, 11, 12, 13, 32})"

definition isDigit :: "char \<Rightarrow> bool" where
  "isDigit c = (48 \<le> (of_char c :: nat) \<and> (of_char c :: nat) \<le> 57)"

definition isUpper :: "char \<Rightarrow> bool" where
  "isUpper c = (65 \<le> (of_char c :: nat) \<and> (of_char c :: nat) \<le> 90)"

definition isLower :: "char \<Rightarrow> bool" where
  "isLower c = (97 \<le> (of_char c :: nat) \<and> (of_char c :: nat) \<le> 122)"

definition isWord :: "char \<Rightarrow> bool" where
  "isWord c = (isLower c \<or> isUpper c \<or> isDigit c \<or> c = CHR ''_'')"

definition isLineTerminator :: "char \<Rightarrow> bool" where
  "isLineTerminator c = ((of_char c :: nat) \<in> {10, 13})"

definition toLowerChar :: "char \<Rightarrow> char" where
  "toLowerChar c = (if isUpper c then char_of (of_char c + (32::nat)) else c)"

definition toUpperChar :: "char \<Rightarrow> char" where
  "toUpperChar c = (if isLower c then char_of (of_char c - (32::nat)) else c)"

definition toLowerCase :: "string \<Rightarrow> string" where
  "toLowerCase s = map toLowerChar s"

definition toUpperCase :: "string \<Rightarrow> string" where
  "toUpperCase s = map toUpperChar s"

text \<open>\<open>String.prototype.trim\<close>: white space is removed at both ends.\<close>

definition trimStart :: "string \<Rightarrow> string" where
  "trimStart s = dropWhile isSpace s"

definition trimEnd :: "string \<Rightarrow> string" where
  "trimEnd s = rev (dropWhile isSpace (rev s))"

definition trim :: "string \<Rightarrow> string" where
  "trim s = trimEnd (trimStart s)"

text \<open>\<open>String.prototype.includes\<close>: the keyword occurs at some position of the text.\<close>

fun startsWith :: "string \<Rightarrow> string \<Rightarrow> bool" where
  "startsWith s [] = True"
| "startsWith [] (k # ks) = False"
| "startsWith (c # cs) (k # ks) = (c = k \<and> startsWith cs ks)"

fun includesStr :: "string \<Rightarrow> string \<Rightarrow> bool" where
  "includesStr [] k = (k = [])"
| "includesStr (c # cs) k = (startsWith (c # cs) k \<or> includesStr cs k)"

section \<open>Regular expressions\<close>

text \<open>
  The regular expressions of the source are values of \<open>rx\<close>. The matcher follows the
  backtracking semantics of ECMAScript: \<open>ms ci r p s\<close> lists, in the order in which
  the backtracking search reaches them, the ways in which \<open>r\<close> can match a prefix of
  \<open>s\<close>; each is the pair of the last character before the end of the match (\<open>p\<close>
  is the character before \<open>s\<close>, \<open>None\<close> at the start of the input) and the rest of
  the input. The first element is the match that \<open>exec\<close> reports at this position.
  \<open>ci\<close> is the flag \<open>i\<close>. A quantifier is greedy, and an iteration of \<open>*\<close> that
  consumes nothing is rejected, as in ECMAScript.
\<close>

datatype cset = CSpace | CDigit | CWord | CDot | COneOf string | CUnion cset cset

datatype rx =
    Eps
  | Str string
  | Cls cset
  | Seq rx rx
  | Alt rx rx
  | Star rx
  | Bnd
  | Bol
  | Eol

text \<open>Under the flag \<open>i\<close> two characters are compared after upper-casing both.\<close>

definition eqChar :: "bool \<Rightarrow> char \<Rightarrow> char \<Rightarrow> bool" where
  "eqChar ci k c = (if ci then toUpperChar k = toUpperChar c else k = c)"

fun inCset :: "bool \<Rightarrow> cset \<Rightarrow> char \<Rightarrow> bool" where
  "inCset ci CSpace c = isSpace c"
| "inCset ci CDigit c = isDigit c"
| "inCset ci CWord c = isWord c"
| "inCset ci CDot c = (\<not> isLineTerminator c)"
| "inCset ci (COneOf cs) c = list_ex (\<lambda>k. eqChar ci k c) cs"
| "inCset ci (CUnion a b) c = (inCset ci a c \<or> inCset ci b c)"

fun matchStr :: "bool \<Rightarrow> string \<Rightarrow> char option \<Rightarrow> string \<Rightarrow> (char option \<times> string) option" where
  "matchStr ci [] p s = Some (p, s)"
| "matchStr ci (k # ks) p [] = None"
| "matchStr ci (k # ks) p (c # cs) = (if eqChar ci k c then matchStr ci ks (Some c) cs else None)"

definition isWordOpt :: "char option \<Rightarrow> bool" where
  "isWordOpt p = (case p of None \<Rightarrow> False | Some c \<Rightarrow> isWord c)"

definition nextChar :: "string \<Rightarrow> char option" where
  "nextChar s = (case s of [] \<Rightarrow> None | c # cs \<Rightarrow> Some c)"

fun ms :: "bool \<Rightarrow> rx \<Rightarrow> char option \<Rightarrow> string \<Rightarrow> (char option \<times> string) list" where
  "ms ci Eps p s = [(p, s)]"
| "ms ci (Str w) p s = (case matchStr ci w p s of None \<Rightarrow> [] | Some x \<Rightarrow> [x])"
| "ms ci (Cls k) p [] = []"
| "ms ci (Cls k) p (c # cs) = (if inCset ci k c then [(Some c, cs)] else [])"
| "ms ci (Seq a b) p s = concat (map (\<lambda>(q, t). ms ci b q t) (ms ci a p s))"
| "ms ci (Alt a b) p s = ms ci a p s @ ms ci b p s"
| "ms ci (Star a) p s =
     concat (map (\<lambda>(q, t). if length t < length s then ms ci (Star a) q t else [])
                 (ms ci a p s)) @ [(p, s)]"
| "ms ci Bnd p s = (if isWordOpt p \<noteq> isWordOpt (nextChar s) then [(p, s)] else [])"
| "ms ci Bol p s = (if p = None then [(p, s)] else [])"
| "ms ci Eol p s = (if s = [] then [(p, s)] else [])"

declare ms.simps(7) [simp del]

text \<open>The derived forms: \<open>r+\<close>, \<open>r?\<close>, a sequence and an alternation of several parts.\<close>

definition Plus :: "rx \<Rightarrow> rx" where
  "Plus r = Seq r (Star r)"

definition Opt :: "rx \<Rightarrow> rx" where
  "Opt r = Alt r Eps"

fun seqs :: "rx list \<Rightarrow> rx" where
  "seqs [] = Eps"
| "seqs [r] = r"
| "seqs (r # rs) = Seq r (seqs rs)"

fun alts :: "rx list \<Rightarrow> rx" where
  "alts [] = Cls (COneOf [])"
| "alts [r] = r"
| "alts (r # rs) = Alt r (alts rs)"

definition strs :: "string list \<Rightarrow> rx" where
  "strs ks = alts (map Str ks)"

abbreviation ws :: rx where "ws \<equiv> Cls CSpace"
abbreviation dg :: rx where "dg \<equiv> Cls CDigit"
abbreviation wd :: rx where "wd \<equiv> Cls CWord"

text \<open>
  \<open>search\<close> is one call of \<open>exec\<close> without the flag \<open>g\<close>: the leftmost position at
  which the expression matches, with the text before the match, the matched text, the
  character before the end of the match, and the rest.
\<close>

fun search :: "bool \<Rightarrow> rx \<Rightarrow> char option \<Rightarrow> string \<Rightarrow> (string \<times> string \<times> char option \<times> string) option" where
  "search ci r p s =
     (case ms ci r p s of
        (q, t) # _ \<Rightarrow> Some ([], take (length s - length t) s, q, t)
      | [] \<Rightarrow>
         (case s of
            [] \<Rightarrow> None
          | c # cs \<Rightarrow> map_option (\<lambda>(pre, m, q, t). (c # pre, m, q, t)) (search ci r (Some c) cs)))"

declare search.simps [simp del]

definition test :: "bool \<Rightarrow> rx \<Rightarrow> string \<Rightarrow> bool" where
  "test ci r s = (search ci r None s \<noteq> None)"

text \<open>\<open>s.replace(r, f)\<close> for an expression without the flag \<open>g\<close>.\<close>

definition replaceFirst :: "bool \<Rightarrow> rx \<Rightarrow> (string \<Rightarrow> string) \<Rightarrow> string \<Rightarrow> string" where
  "replaceFirst ci r f s =
     (case search ci r None s of
        None \<Rightarrow> s
      | Some (pre, m, q, t) \<Rightarrow> pre @ f m @ t)"

text \<open>
  \<open>s.replace(r, f)\<close> for an expression with the flag \<open>g\<close>: every match, from left
  to right, the search resuming at the end of the last match; after an empty match the
  next character is kept and the search resumes behind it.
\<close>

fun replaceFrom :: "bool \<Rightarrow> rx \<Rightarrow> (string \<Rightarrow> string) \<Rightarrow> char option \<Rightarrow> string \<Rightarrow> string" where
  "replaceFrom ci r f p s =
     (case ms ci r p s of
        (q, t) # _ \<Rightarrow>
          (if length t < length s
           then f (take (length s - length t) s) @ replaceFrom ci r f q t
           else f [] @ (case s of [] \<Rightarrow> [] | c # cs \<Rightarrow> c # replaceFrom ci r f (Some c) cs))
      | [] \<Rightarrow> (case s of [] \<Rightarrow> [] | c # cs \<Rightarrow> c # replaceFrom ci r f (Some c) cs))"

declare replaceFrom.simps [simp del]

definition replaceAll :: "bool \<Rightarrow> rx \<Rightarrow> (string \<Rightarrow> string) \<Rightarrow> string \<Rightarrow> string" where
  "replaceAll ci r f s = replaceFrom ci r f None s"

text \<open>
  \<open>s.split(r)\<close> for an expression without capture groups. \<open>cur\<close> is the current
  segment, reversed. A match that ends where the current segment starts is skipped, and
  no match is tried at the end of the input.
\<close>

fun splitLoop :: "bool \<Rightarrow> rx \<Rightarrow> string \<Rightarrow> char option \<Rightarrow> string \<Rightarrow> string list" where
  "splitLoop ci r cur p [] = [rev cur]"
| "splitLoop ci r cur p (c # cs) =
     (case ms ci r p (c # cs) of
        (q, t) # _ \<Rightarrow>
          (if length t < length (c # cs) then rev cur # splitLoop ci r [] q t
           else if cur = [] then splitLoop ci r [c] (Some c) cs
           else rev cur # splitLoop ci r [c] (Some c) cs)
      | [] \<Rightarrow> splitLoop ci r (c # cur) (Some c) cs)"

definition split :: "bool \<Rightarrow> rx \<Rightarrow> string \<Rightarrow> string list" where
  "split ci r s =
     (if s = [] then (if ms ci r None [] = [] then [[]] else [])
      else splitLoop ci r [] None s)"

text \<open>
  \<open>s.match(r)[1]\<close> for an expression \<open>pre (cap) post\<close> with one capture group that
  is not under a quantifier: the text of the group in the first match that the
  backtracking search completes, at the leftmost position that has one.
\<close>

fun firstSome :: "('a \<Rightarrow> 'b option) \<Rightarrow> 'a list \<Rightarrow> 'b option" where
  "firstSome f [] = None"
| "firstSome f (x # xs) = (case f x of Some y \<Rightarrow> Some y | None \<Rightarrow> firstSome f xs)"

definition capAt :: "bool \<Rightarrow> rx \<Rightarrow> rx \<Rightarrow> rx \<Rightarrow> char option \<Rightarrow> string \<Rightarrow> string option" where
  "capAt ci pre cap post p s =
     firstSome (\<lambda>(q, t).
        firstSome (\<lambda>(q', t'). if ms ci post q' t' = [] then None
                               else Some (take (length t - length t') t))
                  (ms ci cap q t))
       (ms ci pre p s)"

fun matchCap :: "bool \<Rightarrow> rx \<Rightarrow> rx \<Rightarrow> rx \<Rightarrow> char option \<Rightarrow> string \<Rightarrow> string option" where
  "matchCap ci pre cap post p [] = capAt ci pre cap post p []"
| "matchCap ci pre cap post p (c # cs) =
     (case capAt ci pre cap post p (c # cs) of
        Some m \<Rightarrow> Some m
      | None \<Rightarrow> matchCap ci pre cap post (Some c) cs)"

section \<open>The data model (types)\<close>

datatype Category = Work | Health | Personal | Finance | Learning | Social

datatype Timeframe = Daily | Weekly | Monthly | Once

datatype Priority = Low | Medium | High

text \<open>
  The field \<open>type\<close> of a recurrence pattern is one of three strings; \<open>ROther\<close>
  stands for any other value, which the type declaration excludes and the last line of
  \<open>formatRecurrence\<close> still answers. The Numbers that arise here are the doubles
  with a non-negative integer value (\<open>Num n\<close> is the double whose value is \<open>n\<close>),
  \<open>NaN\<close> and \<open>+Infinity\<close>.
\<close>

datatype RecurrenceType = RDaily | RWeekly | RMonthly | ROther

datatype jsnum = Num nat | NaN | Infinity

record RecurrencePattern =
  rtype :: RecurrenceType
  days :: "int list option"
  dayOfMonth :: "jsnum option"
  interval :: "jsnum option"

section \<open>services/nlp.ts\<close>

definition categoryKeywords :: "(Category \<times> string list) list" where
  "categoryKeywords =
    [(Work, [''work'', ''meeting'', ''email'', ''project'', ''deadline'', ''client'', ''report'',
             ''presentation'', ''office'', ''boss'', ''colleague'']),
     (Health, [''gym'', ''workout'', ''exercise'', ''run'', ''yoga'', ''doctor'', ''medicine'',
               ''walk'', ''sleep'', ''diet'', ''meditate'', ''stretch'']),
     (Personal, [''home'', ''clean'', ''laundry'', ''grocery'', ''cook'', ''organize'',
                 ''declutter'', ''fix'', ''repair'']),
     (Finance, [''pay'', ''bill'', ''budget'', ''invest'', ''bank'', ''tax'', ''expense'',
                ''savings'', ''money'', ''rent'', ''mortgage'']),
     (Learning, [''read'', ''study'', ''learn'', ''course'', ''book'', ''practice'', ''tutorial'',
                 ''class'', ''lesson'', ''skill'']),
     (Social, [''call'', ''visit'', ''meet'', ''friend'', ''family'', ''party'', ''dinner'',
               ''lunch'', ''birthday'', ''event''])]"

definition priorityKeywords :: "(Priority \<times> string list) list" where
  "priorityKeywords =
    [(High, [''urgent'', ''important'', ''critical'', ''asap'', ''immediately'', ''priority'',
             ''must'']),
     (Medium, [''should'', ''need to'', ''plan to'']),
     (Low, [''maybe'', ''could'', ''sometime'', ''eventually'', ''when possible''])]"

text \<open>
  The two nested loops of \<open>detectCategory\<close> and \<open>detectPriority\<close>: the entries of the
  table in order, the keywords of an entry in order, the first hit returns.
\<close>

fun anyKeyword :: "string \<Rightarrow> string list \<Rightarrow> bool" where
  "anyKeyword lowerText [] = False"
| "anyKeyword lowerText (keyword # keywords) =
     (if includesStr lowerText keyword then True else anyKeyword lowerText keywords)"

fun scanKeywords :: "string \<Rightarrow> ('a \<times> string list) list \<Rightarrow> 'a option" where
  "scanKeywords lowerText [] = None"
| "scanKeywords lowerText ((key, keywords) # entries) =
     (if anyKeyword lowerText keywords then Some key else scanKeywords lowerText entries)"

definition detectCategory :: "string \<Rightarrow> Category option" where
  "detectCategory text = scanKeywords (toLowerCase text) categoryKeywords"

definition detectPriority :: "string \<Rightarrow> Priority" where
  "detectPriority text =
     (case scanKeywords (toLowerCase text) priorityKeywords of
        Some priority \<Rightarrow> priority
      | None \<Rightarrow> Medium)"

text \<open>
  An entry of \<open>recurrencePatterns\<close>: an expression without a capture group, or one
  of the form \<open>pre (cap) post\<close>; and the type. The field \<open>interval\<close> of the entries is
  not read by \<open>detectRecurrence\<close>.
\<close>

datatype pattern = Plain rx | Capture rx rx rx

definition recurrencePatterns :: "(pattern \<times> RecurrenceType) list" where
  "recurrencePatterns =
    [(Plain (seqs [Str ''every'', Plus ws, Str ''day'']), RDaily),
     (Plain (Str ''daily''), RDaily),
     (Plain (seqs [Str ''every'', Plus ws, Str ''week'']), RWeekly),
     (Plain (Str ''weekly''), RWeekly),
     (Plain (seqs [Str ''every'', Plus ws, Str ''month'']), RMonthly),
     (Plain (Str ''monthly''), RMonthly),
     (Capture (seqs [Str ''every'', Plus ws]) (Plus dg) (seqs [Plus ws, Str ''day'', Opt (Str ''s'')]),
      RDaily),
     (Capture (seqs [Str ''every'', Plus ws]) (Plus dg) (seqs [Plus ws, Str ''week'', Opt (Str ''s'')]),
      RWeekly)]"

definition dayNames :: "string list" where
  "dayNames = [''sunday'', ''monday'', ''tuesday'', ''wednesday'', ''thursday'', ''friday'',
               ''saturday'']"

text \<open>
  The Number for a non-negative integer: below \<open>2^53\<close> the integer itself; above,
  the nearest double, which keeps 53 significant bits and rounds a tie to the even
  neighbour; from \<open>2^1024\<close> after rounding, \<open>+Infinity\<close>. (The bound
  \<open>2^53\<close> is compared as an integer, whose numerals are binary.)
\<close>

fun shiftOf :: "nat \<Rightarrow> nat" where
  "shiftOf n = (if int n < 9007199254740992 then 0 else Suc (shiftOf (n div 2)))"

declare shiftOf.simps [simp del]

definition toNumber :: "nat \<Rightarrow> jsnum" where
  "toNumber n =
     (if int n < 9007199254740992 then Num n
      else (let e = shiftOf n;
                q = n div 2 ^ e;
                r = n mod 2 ^ e;
                half = 2 ^ (e - 1);
                q' = (if half < r \<or> (r = half \<and> odd q) then q + 1 else q)
            in if 2 ^ 1024 \<le> q' * 2 ^ e then Infinity else Num (q' * 2 ^ e)))"

text \<open>
  \<open>parseInt\<close> on a string: the Number for the value of the leading run of decimal
  digits, \<open>NaN\<close> when there is none. (The captured text is a run of digits, so
  neither a sign nor a prefix nor leading white space arises. ECMAScript lets an
  implementation replace the digits after the twentieth significant one by zeros; a run
  whose value is below \<open>2^53\<close> has at most sixteen, so there the result is the
  same for every implementation.)
\<close>

definition digitVal :: "char \<Rightarrow> nat" where
  "digitVal c = of_char c - 48"

definition decimalValue :: "string \<Rightarrow> nat" where
  "decimalValue ds = foldl (\<lambda>n c. 10 * n + digitVal c) 0 ds"

definition parseInt :: "string \<Rightarrow> jsnum" where
  "parseInt s =
     (let ds = takeWhile isDigit s
      in if ds = [] then NaN else toNumber (decimalValue ds))"

text \<open>
  \<open>everyDaysMatch\<close>: the expression
  \<open>/every\s+((?:(?:monday|...|sunday)(?:\s*(?:,|and)\s*)?)+)/i\<close> and its group 1.
\<close>

definition everyDaysPre :: rx where
  "everyDaysPre = seqs [Str ''every'', Plus ws]"

definition everyDaysCap :: rx where
  "everyDaysCap =
     Plus (Seq (strs [''monday'', ''tuesday'', ''wednesday'', ''thursday'', ''friday'',
                      ''saturday'', ''sunday''])
               (Opt (seqs [Star ws, Alt (Str '','') (Str ''and''), Star ws])))"

definition everyDaysMatch :: "string \<Rightarrow> string option" where
  "everyDaysMatch lowerText = matchCap True everyDaysPre everyDaysCap Eps None lowerText"

text \<open>The \<open>forEach\<close> over \<open>dayNames\<close>: the indices whose name occurs, in order.\<close>

fun daysLoop :: "string \<Rightarrow> string list \<Rightarrow> int \<Rightarrow> int list" where
  "daysLoop daysText [] index = []"
| "daysLoop daysText (day # rest) index =
     (if includesStr daysText day then index # daysLoop daysText rest (index + 1)
      else daysLoop daysText rest (index + 1))"

text \<open>The loop over \<open>recurrencePatterns\<close>: the first entry that matches returns.\<close>

fun matchPattern :: "pattern \<Rightarrow> string \<Rightarrow> string option option" where
  "matchPattern (Plain r) lowerText = (if test True r lowerText then Some None else None)"
| "matchPattern (Capture pre cap post) lowerText =
     map_option Some (matchCap True pre cap post None lowerText)"

fun patternLoop :: "(pattern \<times> RecurrenceType) list \<Rightarrow> string \<Rightarrow> RecurrencePattern option" where
  "patternLoop [] lowerText = None"
| "patternLoop ((pat, ty) # rest) lowerText =
     (case matchPattern pat lowerText of
        Some m1 \<Rightarrow>
          Some \<lparr>rtype = ty, days = None, dayOfMonth = None,
                interval = Some (case m1 of None \<Rightarrow> Num 1
                                 | Some d \<Rightarrow> if d = [] then Num 1 else parseInt d)\<rparr>
      | None \<Rightarrow> patternLoop rest lowerText)"

definition detectRecurrence :: "string \<Rightarrow> RecurrencePattern option" where
  "detectRecurrence text =
     (let lowerText = toLowerCase text;
          byDays =
            (case everyDaysMatch lowerText of
               None \<Rightarrow> None
             | Some m1 \<Rightarrow>
                 (let daysText = toLowerCase m1;
                      ds = daysLoop daysText dayNames 0
                  in if length ds > 0
                     then Some \<lparr>rtype = RWeekly, days = Some ds, dayOfMonth = None,
                                interval = Some (Num 1)\<rparr>
                     else None))
      in case byDays of
           Some r \<Rightarrow> Some r
         | None \<Rightarrow> patternLoop recurrencePatterns lowerText)"

text \<open>
  \<open>detectTimeframe\<close>. The due date and the current instant are milliseconds since the
  epoch; \<open>now\<close> is the value of \<open>new Date()\<close> at the call. \<open>Math.ceil\<close> of the
  quotient is the integer ceiling (the quotient of two such integers is rounded by less
  than the distance of a non-integral quotient to the thresholds 1, 7 and 30).
\<close>

definition everyWordDay :: rx where
  "everyWordDay = seqs [Str ''every'', Plus ws, Plus wd, Str ''day'']"

definition diffDays :: "int \<Rightarrow> int \<Rightarrow> int" where
  "diffDays dueDate now = - ((now - dueDate) div (1000 * 60 * 60 * 24))"

definition detectTimeframe :: "string \<Rightarrow> bool \<Rightarrow> int option \<Rightarrow> int \<Rightarrow> Timeframe" where
  "detectTimeframe text hasRecurrence dueDate now =
     (let lowerText = toLowerCase text;
          byText =
            (if hasRecurrence then
               (if includesStr lowerText ''daily'' \<or> includesStr lowerText ''every day''
                then Some Daily
                else if includesStr lowerText ''weekly'' \<or> includesStr lowerText ''every week''
                        \<or> test True everyWordDay lowerText
                then Some Weekly
                else if includesStr lowerText ''monthly'' \<or> includesStr lowerText ''every month''
                then Some Monthly
                else None)
             else None)
      in case byText of
           Some tf \<Rightarrow> tf
         | None \<Rightarrow>
            (case dueDate of
               Some d \<Rightarrow>
                 (if diffDays d now \<le> 1 then Daily
                  else if diffDays d now \<le> 7 then Weekly
                  else if diffDays d now \<le> 30 then Monthly
                  else Once)
             | None \<Rightarrow> Once))"

text \<open>\<open>cleanTitle\<close>: the six expressions, all with the flag \<open>g\<close>, the last without \<open>i\<close>.\<close>

definition patternsToRemove :: "(bool \<times> rx) list" where
  "patternsToRemove =
    [(True, seqs [Bnd, strs [''at'', ''on'', ''by'', ''before'', ''after''], Plus ws, dg, Opt dg,
                  Opt (seqs [Str '':'', dg, dg]), Star ws, Opt (strs [''am'', ''pm'']), Bnd]),
     (True, seqs [Bnd, alts [Str ''today'', Str ''tomorrow'', Str ''tonight'',
                             seqs [Str ''this'', Plus ws, Plus wd],
                             seqs [Str ''next'', Plus ws, Plus wd]], Bnd]),
     (True, seqs [Bnd, Str ''every'', Plus ws,
                  alts [Str ''day'', Str ''week'', Str ''month'',
                        seqs [Plus wd, Str ''day'',
                              Star (seqs [Star ws, Alt (Str '','') (Str ''and''), Star ws,
                                          Plus wd, Str ''day''])]], Bnd]),
     (True, seqs [Bnd, strs [''daily'', ''weekly'', ''monthly''], Bnd]),
     (True, seqs [Bnd, strs [''urgent'', ''important'', ''asap''], Bnd]),
     (False, seqs [Bnd, dg, Opt dg, Str ''/'', dg, Opt dg,
                   Opt (seqs [Str ''/'', dg, dg, Opt (Seq dg (Opt dg))]), Bnd])]"

fun removePatterns :: "(bool \<times> rx) list \<Rightarrow> string \<Rightarrow> string" where
  "removePatterns [] cleaned = cleaned"
| "removePatterns ((ci, r) # rest) cleaned =
     removePatterns rest (replaceAll ci r (\<lambda>m. []) cleaned)"

definition collapseSpaces :: "string \<Rightarrow> string" where
  "collapseSpaces s = replaceAll False (Plus ws) (\<lambda>m. '' '') s"

definition capitalize :: "string \<Rightarrow> string" where
  "capitalize cleaned =
     (if length cleaned > 0 then toUpperCase (take 1 cleaned) @ drop 1 cleaned else cleaned)"

definition tidy :: "string \<Rightarrow> string" where
  "tidy s = capitalize (trim (collapseSpaces s))"

definition cleanTitle :: "string \<Rightarrow> string" where
  "cleanTitle text = tidy (removePatterns patternsToRemove text)"

text \<open>
  \<open>parseNaturalLanguage\<close>. The date parser \<open>chrono.parse\<close> is a library outside the
  repository: it is the parameter \<open>chrono\<close>, which gives for a text the list of results,
  each with the date of its start (milliseconds since the epoch), whether the hour is
  certain, and the hour and the minute when known.
\<close>

record ChronoResult =
  startDate :: int
  isCertainHour :: bool
  getHour :: "nat option"
  getMinute :: "nat option"

record ParsedTask =
  title :: string
  category :: "Category option"
  dueDate :: "int option"
  dueTime :: "string option"
  timeframe :: Timeframe
  recurrence :: "RecurrencePattern option"
  priority :: Priority

text \<open>
  A natural number in decimal, as a template literal prints a Number with that value
  below \<open>10^21\<close>.
\<close>

definition digitChar :: "nat \<Rightarrow> char" where
  "digitChar n = char_of (48 + n)"

fun showNat :: "nat \<Rightarrow> string" where
  "showNat n = (if n < 10 then [digitChar n] else showNat (n div 10) @ [digitChar (n mod 10)])"

declare showNat.simps [simp del]

definition padStart2 :: "string \<Rightarrow> string" where
  "padStart2 s = replicate (2 - length s) (CHR ''0'') @ s"

definition orZero :: "nat option \<Rightarrow> nat" where
  "orZero v = (case v of None \<Rightarrow> 0 | Some n \<Rightarrow> n)"

definition parseNaturalLanguage :: "(string \<Rightarrow> ChronoResult list) \<Rightarrow> int \<Rightarrow> string \<Rightarrow> ParsedTask" where
  "parseNaturalLanguage chrono now input =
     (let parsed = chrono input;
          dueDate = (case parsed of [] \<Rightarrow> None | result # _ \<Rightarrow> Some (startDate result));
          dueTime =
            (case parsed of
               [] \<Rightarrow> None
             | result # _ \<Rightarrow>
                 (if isCertainHour result
                  then Some (padStart2 (showNat (orZero (getHour result))) @ '':''
                             @ padStart2 (showNat (orZero (getMinute result))))
                  else None));
          recurrence = detectRecurrence input;
          category = detectCategory input;
          priority = detectPriority input;
          timeframe = detectTimeframe input (recurrence \<noteq> None) dueDate now;
          title = cleanTitle input
      in \<lparr>title = title, category = category, dueDate = dueDate, dueTime = dueTime,
          timeframe = timeframe, recurrence = recurrence, priority = priority\<rparr>)"

text \<open>
  The caller of \<open>parseNaturalLanguage\<close>, \<open>handleSubmit\<close> of the task form: a blank
  input submits nothing; otherwise the submitted title is the parsed title or, when
  that is empty, the trimmed input.
\<close>

definition handleSubmitTitle :: "(string \<Rightarrow> ChronoResult list) \<Rightarrow> int \<Rightarrow> string \<Rightarrow> string option" where
  "handleSubmitTitle chrono now input =
     (if trim input = [] then None
      else (let parsedTask = parseNaturalLanguage chrono now input
            in Some (if title parsedTask \<noteq> [] then title parsedTask else trim input)))"

text \<open>
  \<open>formatRecurrence\<close>. Reading \<open>dayNames[d]\<close> outside the array gives \<open>undefined\<close>,
  and \<open>slice\<close> on it throws a \<open>TypeError\<close>.
\<close>

datatype error = TypeError

definition showNum :: "jsnum option \<Rightarrow> string" where
  "showNum v =
     (case v of
        None \<Rightarrow> ''undefined''
      | Some NaN \<Rightarrow> ''NaN''
      | Some Infinity \<Rightarrow> ''Infinity''
      | Some (Num n) \<Rightarrow> showNat n)"

definition dayLabel :: "int \<Rightarrow> error + string" where
  "dayLabel d = (if 0 \<le> d \<and> d < int (length dayNames)
                 then Inr (take 3 (dayNames ! nat d)) else Inl TypeError)"

fun dayLabelsMap :: "int list \<Rightarrow> error + string list" where
  "dayLabelsMap [] = Inr []"
| "dayLabelsMap (d # ds) =
     (case dayLabel d of
        Inl e \<Rightarrow> Inl e
      | Inr l \<Rightarrow> (case dayLabelsMap ds of Inl e \<Rightarrow> Inl e | Inr ls \<Rightarrow> Inr (l # ls)))"

fun join :: "string \<Rightarrow> string list \<Rightarrow> string" where
  "join sep [] = []"
| "join sep [x] = x"
| "join sep (x # xs) = x @ sep @ join sep xs"

definition formatRecurrence :: "RecurrencePattern \<Rightarrow> error + string" where
  "formatRecurrence rp =
     (if rtype rp = RDaily then
        Inr (if interval rp = Some (Num 1) then ''Daily''
             else ''Every '' @ showNum (interval rp) @ '' days'')
      else if rtype rp = RWeekly then
        (case days rp of
           Some (d # ds) \<Rightarrow>
             (case dayLabelsMap (d # ds) of
                Inl e \<Rightarrow> Inl e
              | Inr dayLabels \<Rightarrow> Inr (''Every '' @ join '', '' dayLabels))
         | _ \<Rightarrow>
             Inr (if interval rp = Some (Num 1) then ''Weekly''
                  else ''Every '' @ showNum (interval rp) @ '' weeks''))
      else if rtype rp = RMonthly then
        Inr (if interval rp = Some (Num 1) then ''Monthly''
             else ''Every '' @ showNum (interval rp) @ '' months'')
      else Inr [])"

section \<open>components/DailyPrompt.tsx\<close>

record Candidate =
  ctitle :: string
  ccategory :: Category
  cpriority :: Priority
  selected :: bool

text \<open>The six expressions of the second \<open>detectCategory\<close>, without the flag \<open>i\<close>.\<close>

definition workRx :: rx where
  "workRx = seqs [Bnd, strs [''work'', ''office'', ''meeting'', ''email'', ''project'', ''deadline'',
       ''boss'', ''client'', ''report'', ''presentation'', ''call with'', ''zoom'', ''teams'',
       ''standup'', ''sprint'', ''jira'', ''slack''], Bnd]"

definition healthRx :: rx where
  "healthRx = seqs [Bnd, strs [''gym'', ''exercise'', ''workout'', ''run'', ''walk'', ''jog'',
       ''doctor'', ''dentist'', ''health'', ''yoga'', ''meditat'', ''sleep'', ''vitamin'',
       ''medicine'', ''appointment'', ''checkup'', ''therapy'', ''physio''], Bnd]"

definition financeRx :: rx where
  "financeRx = seqs [Bnd, strs [''pay'', ''bill'', ''bank'', ''money'', ''budget'', ''tax'',
       ''invoice'', ''rent'', ''mortgage'', ''insurance'', ''invest'', ''salary'', ''expense'',
       ''transfer'', ''savings''], Bnd]"

definition socialRx :: rx where
  "socialRx = seqs [Bnd, strs [''call mom'', ''call dad'', ''call friend'', ''visit'', ''party'',
       ''dinner with'', ''lunch with'', ''meet up'', ''friend'', ''family'', ''birthday'',
       ''wedding'', ''event'', ''drinks with'', ''coffee with''], Bnd]"

definition bookingRx :: rx where
  "bookingRx = seqs [Bnd, strs [''book'', ''reserve'', ''schedule''], Plus ws,
       Opt (seqs [Str ''a'', Plus ws]),
       strs [''train'', ''flight'', ''ticket'', ''hotel'', ''appointment'', ''table'',
             ''restaurant'', ''cab'', ''uber'', ''taxi'', ''room''], Bnd]"

definition learningRx :: rx where
  "learningRx = seqs [Bnd, alts [Str ''study'', Str ''learn'',
       seqs [Str ''read'', Plus ws, Opt (Str ''a''), Star ws, Str ''book''],
       Str ''course'', Str ''class'', Str ''practice'', Str ''tutorial'', Str ''lesson'',
       Str ''homework'', Str ''research'', Str ''exam'', Str ''textbook'', Str ''library'',
       Str ''reading''], Bnd]"

definition personalRx :: rx where
  "personalRx = seqs [Bnd, alts [Str ''clean'', Str ''laundry'', Str ''grocery'', Str ''shop'',
       Str ''cook'', Str ''errand'', Str ''home'', Str ''house'', Str ''car'', Str ''fix'',
       Str ''repair'', Str ''organize'', Seq (Str ''book'') ws, Str ''reserve'', Str ''ticket'',
       Str ''travel'', Str ''pack'', Str ''trip'', Str ''airport'', Str ''train'',
       Str ''flight''], Bnd]"

definition detectCategory2 :: "string \<Rightarrow> Category" where
  "detectCategory2 text =
     (let lower = toLowerCase text in
      if test False workRx lower then Work
      else if test False healthRx lower then Health
      else if test False financeRx lower then Finance
      else if test False socialRx lower then Social
      else (let isBookingAction = test False bookingRx lower in
            if \<not> isBookingAction \<and> test False learningRx lower then Learning
            else if test False personalRx lower then Personal
            else Personal))"

definition highRx :: rx where
  "highRx = seqs [Bnd, strs [''urgent'', ''asap'', ''important'', ''critical'', ''must'',
       ''deadline today'', ''high priority''], Bnd]"

definition lowRx :: rx where
  "lowRx = seqs [Bnd, strs [''maybe'', ''later'', ''when possible'', ''low priority'',
       ''sometime'', ''eventually''], Bnd]"

definition detectPriority2 :: "string \<Rightarrow> Priority" where
  "detectPriority2 text =
     (let lower = toLowerCase text in
      if test False highRx lower then High
      else if test False lowRx lower then Low
      else Medium)"

text \<open>\<open>cleanTaskText\<close>: the filler prefix, the punctuation at both ends, the capital.\<close>

definition prefixRx :: rx where
  "prefixRx = seqs [Bol, strs [''i need to'', ''i have to'', ''i want to'', ''i should'',
       ''i must'', ''i gotta'', ''gotta'', ''need to'', ''have to'', ''want to'', ''should'',
       ''must'', ''going to'', ''gonna'', ''will'', ''i'' @ [CHR 0x27] @ ''ll'', ''i will''],
       Plus ws]"

definition punct :: cset where
  "punct = CUnion CSpace (COneOf '',.-'')"

definition edgesRx :: rx where
  "edgesRx = Alt (Seq Bol (Plus (Cls punct))) (Seq (Plus (Cls punct)) Eol)"

definition cleanTaskText :: "string \<Rightarrow> string" where
  "cleanTaskText text =
     trim (replaceFirst False (Seq Bol (Cls CDot)) toUpperCase
            (replaceAll False edgesRx (\<lambda>m. [])
              (replaceFirst True prefixRx (\<lambda>m. []) text)))"

text \<open>\<open>parseInput\<close>: the split, the loop over the segments with the set \<open>seen\<close>.\<close>

definition delimiterRx :: rx where
  "delimiterRx = alts [seqs [Str '','', Star ws, Opt (seqs [Str ''and'', Plus ws])],
                       seqs [Plus ws, Str ''and'', Plus ws],
                       seqs [Str ''.'', Plus ws],
                       Plus (Str [CHR 0x0A]),
                       seqs [Str '';'', Star ws],
                       seqs [Str ''then'', Plus ws]]"

definition segmentsOf :: "string \<Rightarrow> string list" where
  "segmentsOf input = filter (\<lambda>s. length s > 2) (map trim (split True delimiterRx input))"

fun segmentLoop :: "string list \<Rightarrow> string list \<Rightarrow> Candidate list" where
  "segmentLoop seen [] = []"
| "segmentLoop seen (segment # rest) =
     (let cleaned = cleanTaskText segment in
      if length cleaned < 3 then segmentLoop seen rest
      else (let key = toLowerCase cleaned in
            if key \<in> set seen then segmentLoop seen rest
            else \<lparr>ctitle = cleaned, ccategory = detectCategory2 segment,
                  cpriority = detectPriority2 segment, selected = True\<rparr>
                 # segmentLoop (key # seen) rest))"

definition parseInput :: "string \<Rightarrow> Candidate list" where
  "parseInput input = segmentLoop [] (segmentsOf input)"

section \<open>Definitions used by the statements\<close>

text \<open>
  The category classifier in the words of its specification: the categories in the
  order of their declaration, and a keyword occurring in a text when its lower-case
  form is a contiguous part of the lower-case text.
\<close>

definition categoryOrder :: "Category list" where
  "categoryOrder = [Work, Health, Personal, Finance, Learning, Social]"

definition keywordsOf :: "Category \<Rightarrow> string list" where
  "keywordsOf c = (case map_of categoryKeywords c of Some ks \<Rightarrow> ks | None \<Rightarrow> [])"

definition occursIn :: "string \<Rightarrow> string \<Rightarrow> bool" where
  "occursIn keyword text = sublist (toLowerCase keyword) (toLowerCase text)"

definition firstCategory :: "string \<Rightarrow> Category option" where
  "firstCategory text = find (\<lambda>c. \<exists>k \<in> set (keywordsOf c). occursIn k text) categoryOrder"

text \<open>The capture group of an entry of the interval table is \<open>(\d+)\<close>.\<close>

definition captureIsDigits :: "pattern \<Rightarrow> bool" where
  "captureIsDigits pat = (case pat of Plain r \<Rightarrow> True | Capture pre cap post \<Rightarrow> cap = Plus dg)"

text \<open>
  Deduplication in the words of the specification: of the elements with one key the
  first is kept and the later ones are dropped. The candidates of \<open>parseInput\<close>
  are the cleaned segments of at least three characters.
\<close>

fun keepFirst :: "('a \<Rightarrow> 'k) \<Rightarrow> 'a list \<Rightarrow> 'a list" where
  "keepFirst key [] = []"
| "keepFirst key (x # xs) = x # keepFirst key (filter (\<lambda>y. key y \<noteq> key x) xs)"

definition cleanedSegments :: "string \<Rightarrow> string list" where
  "cleanedSegments input = filter (\<lambda>c. 3 \<le> length c) (map cleanTaskText (segmentsOf input))"


text \<open>
  The white-space stage of \<open>cleanTitle\<close> as a recursive function: a run of white
  space becomes one blank. A text is in normal form when each white-space character is
  a blank that is followed by another character that is not white space, and when it
  neither starts nor ends with white space.
\<close>

function collapseRef :: "string \<Rightarrow> string" where
  "collapseRef [] = []"
| "collapseRef (c # cs) =
     (if isSpace c then CHR '' '' # collapseRef (dropWhile isSpace cs) else c # collapseRef cs)"
  by pat_completeness auto
termination
  by (relation "measure length") (auto simp: less_Suc_eq_le length_dropWhile_le)

fun spacesOk :: "string \<Rightarrow> bool" where
  "spacesOk [] = True"
| "spacesOk [c] = (isSpace c \<longrightarrow> c = CHR '' '')"
| "spacesOk (c # d # cs) = ((isSpace c \<longrightarrow> c = CHR '' '' \<and> \<not> isSpace d) \<and> spacesOk (d # cs))"

definition edgesOk :: "string \<Rightarrow> bool" where
  "edgesOk z = (z = [] \<or> (\<not> isSpace (hd z) \<and> \<not> isSpace (last z)))"

text \<open>
  For the recurrence detector: a text without upper-case letters, the weekday names in
  the order of the expression, and the interval table in the words of the
  specification: the first entry of the table that matches decides, with the interval
  read from the digits it captured and 1 when it captures none.
\<close>

definition noUpper :: "string \<Rightarrow> bool" where
  "noUpper s = list_all (\<lambda>c. \<not> isUpper c) s"


definition firstPattern :: "string \<Rightarrow> RecurrencePattern option" where
  "firstPattern lowerText =
     (case find (\<lambda>e. matchPattern (fst e) lowerText \<noteq> None) recurrencePatterns of
        None \<Rightarrow> None
      | Some e \<Rightarrow>
          Some \<lparr>rtype = snd e, days = None, dayOfMonth = None,
                interval = Some (case matchPattern (fst e) lowerText of
                                   Some (Some d) \<Rightarrow> parseInt d
                                 | _ \<Rightarrow> Num 1)\<rparr>)"

section \<open>Properties of the matcher\<close>

lemma matchStr_suffix: "matchStr ci w p s = Some (q, t) \<Longrightarrow> suffix t s"
  by (induction ci w p s rule: matchStr.induct) (auto split: if_splits intro: suffix_ConsI)

lemma ms_suffix: "(q, t) \<in> set (ms ci r p s) \<Longrightarrow> suffix t s"
proof (induction ci r p s arbitrary: q t rule: ms.induct)
  case (1 ci p s)
  then show ?case by simp
next
  case (2 ci w p s)
  then have "matchStr ci w p s = Some (q, t)" by (simp split: option.splits)
  then show ?case by (rule matchStr_suffix)
next
  case (3 ci k p)
  then show ?case by simp
next
  case (4 ci k p c cs)
  then show ?case by (simp add: suffix_ConsI split: if_splits)
next
  case (5 ci a b p s)
  from 5(3) obtain q' t' where a: "(q', t') \<in> set (ms ci a p s)" and b: "(q, t) \<in> set (ms ci b q' t')"
    by auto
  from 5(1)[OF a] have "suffix t' s" .
  moreover from 5(2)[OF a refl b] have "suffix t t'" .
  ultimately show ?case by (rule suffix_order.trans[rotated])
next
  case (6 ci a b p s)
  then show ?case by auto
next
  case (7 ci a p s)
  from 7(3) consider "(q, t) = (p, s)"
    | q' t' where "(q', t') \<in> set (ms ci a p s)" "length t' < length s" "(q, t) \<in> set (ms ci (Star a) q' t')"
    by (subst (asm) ms.simps(7)) (auto split: if_splits)
  then show ?case
  proof cases
    case 1
    then show ?thesis by simp
  next
    case 2
    from 7(1)[OF 2(1)] have "suffix t' s" .
    moreover from 7(2)[OF 2(1) refl 2(2) 2(3)] have "suffix t t'" .
    ultimately show ?thesis by (rule suffix_order.trans[rotated])
  qed
next
  case (8 ci p s)
  then show ?case by (simp split: if_splits)
next
  case (9 ci p s)
  then show ?case by (simp split: if_splits)
next
  case (10 ci p s)
  then show ?case by (simp split: if_splits)
qed

lemma firstSome_Some: "firstSome f xs = Some y \<Longrightarrow> \<exists>x \<in> set xs. f x = Some y"
  by (induction xs) (auto split: option.splits)

lemma ms_Plus_class:
  assumes "(q, t) \<in> set (ms ci (Plus (Cls k)) p s)"
  shows "\<exists>c cs. s = c # cs \<and> inCset ci k c \<and> suffix t cs"
proof (cases s)
  case Nil
  with assms show ?thesis by (simp add: Plus_def)
next
  case (Cons c cs)
  with assms have "inCset ci k c" and "(q, t) \<in> set (ms ci (Star (Cls k)) (Some c) cs)"
    by (auto simp: Plus_def split: if_splits)
  with Cons show ?thesis by (auto dest: ms_suffix)
qed


lemma take_suffix_Cons:
  assumes "suffix t cs"
  shows "take (length (c # cs) - length t) (c # cs) = c # take (length cs - length t) cs"
proof -
  have "length t \<le> length cs" using assms by (rule suffix_length_le)
  then show ?thesis by (simp add: Suc_diff_le)
qed

lemma capAt_digits:
  assumes "capAt ci pre (Plus dg) post p s = Some d"
  shows "\<exists>c cs. d = c # cs \<and> isDigit c"
proof -
  from assms obtain q t q' t' where 2: "(q', t') \<in> set (ms ci (Plus dg) q t)"
    and 3: "d = take (length t - length t') t"
    unfolding capAt_def by (auto dest!: firstSome_Some split: if_splits)
  from ms_Plus_class[OF 2] obtain c cs where c: "t = c # cs" "isDigit c" "suffix t' cs"
    by auto
  have "d = c # take (length cs - length t') cs"
    using 3 take_suffix_Cons[OF c(3), of c] c(1) by simp
  with c(2) show ?thesis by blast
qed

lemma matchCap_digits:
  "matchCap ci pre (Plus dg) post p s = Some d \<Longrightarrow> \<exists>c cs. d = c # cs \<and> isDigit c"
  by (induction s arbitrary: p) (auto split: option.splits dest: capAt_digits)

lemma daysLoop_bounds:
  "x \<in> set (daysLoop t names i) \<Longrightarrow> i \<le> x \<and> x < i + int (length names)"
  by (induction t names i rule: daysLoop.induct) (auto split: if_splits)

lemma daysLoop_sorted: "sorted_wrt (<) (daysLoop t names i)"
  by (induction t names i rule: daysLoop.induct) (auto dest: daysLoop_bounds)

lemma dayLabelsMap_ok:
  "\<forall>d \<in> set ds. 0 \<le> d \<and> d < 7 \<Longrightarrow> \<exists>ls. dayLabelsMap ds = Inr ls"
  by (induction ds) (auto simp: dayLabel_def dayNames_def)


lemma recurrencePatterns_shape: "list_all (\<lambda>e. captureIsDigits (fst e)) recurrencePatterns"
  by (simp add: captureIsDigits_def recurrencePatterns_def)

section \<open>Properties of the keyword tables\<close>

lemma startsWith_prefix: "startsWith s k = prefix k s"
  by (induction s k rule: startsWith.induct) auto

lemma includesStr_sublist: "includesStr s k = sublist k s"
  by (induction s) (auto simp: startsWith_prefix sublist_Cons_right)

lemma anyKeyword_iff: "anyKeyword lt ks = (\<exists>k \<in> set ks. sublist k lt)"
  by (induction ks) (auto simp: includesStr_sublist)

lemma scanKeywords_find:
  "scanKeywords lt tbl = map_option fst (find (\<lambda>e. \<exists>k \<in> set (snd e). sublist k lt) tbl)"
  by (induction tbl) (auto simp: anyKeyword_iff)

lemma keywords_lower: "list_all (\<lambda>e. list_all (\<lambda>k. toLowerCase k = k) (snd e)) categoryKeywords"
  by code_simp

lemma scanKeywords_keys:
  "distinct (map fst tbl) \<Longrightarrow>
   scanKeywords lt tbl =
     find (\<lambda>c. \<exists>k \<in> set (case map_of tbl c of Some ks \<Rightarrow> ks | None \<Rightarrow> []). sublist k lt)
          (map fst tbl)"
proof (induction tbl)
  case Nil
  then show ?case by simp
next
  case (Cons e tbl)
  obtain c0 ks0 where e: "e = (c0, ks0)" by (cases e)
  from Cons.prems e have notin: "c0 \<notin> fst ` set tbl" and d: "distinct (map fst tbl)" by auto
  have same: "find (\<lambda>c. \<exists>k \<in> set (case map_of (e # tbl) c of Some ks \<Rightarrow> ks | None \<Rightarrow> []). sublist k lt)
                   (map fst tbl)
            = find (\<lambda>c. \<exists>k \<in> set (case map_of tbl c of Some ks \<Rightarrow> ks | None \<Rightarrow> []). sublist k lt)
                   (map fst tbl)"
    using notin e by (intro find_cong) auto
  show ?case
  proof (cases "\<exists>k \<in> set ks0. sublist k lt")
    case True
    then show ?thesis unfolding e by (auto simp: anyKeyword_iff)
  next
    case False
    then have "scanKeywords lt (e # tbl) = scanKeywords lt tbl"
      unfolding e by (simp add: anyKeyword_iff)
    moreover have "find (\<lambda>c. \<exists>k \<in> set (case map_of (e # tbl) c of Some ks \<Rightarrow> ks | None \<Rightarrow> []). sublist k lt)
                   (map fst (e # tbl))
        = find (\<lambda>c. \<exists>k \<in> set (case map_of (e # tbl) c of Some ks \<Rightarrow> ks | None \<Rightarrow> []). sublist k lt)
                   (map fst tbl)"
      using False unfolding e by auto
    ultimately show ?thesis using Cons.IH[OF d] same by simp
  qed
qed

lemma categoryKeywords_keys: "map fst categoryKeywords = categoryOrder"
  by (simp add: categoryKeywords_def categoryOrder_def)

lemma keywordsOf_lower: "k \<in> set (keywordsOf c) \<Longrightarrow> toLowerCase k = k"
proof -
  assume k: "k \<in> set (keywordsOf c)"
  then obtain ks where "map_of categoryKeywords c = Some ks" "k \<in> set ks"
    by (cases "map_of categoryKeywords c") (auto simp: keywordsOf_def)
  then have "(c, ks) \<in> set categoryKeywords" by (auto dest: map_of_SomeD)
  with keywords_lower \<open>k \<in> set ks\<close> show ?thesis
    by (auto simp: list_all_iff)
qed

lemma detectCategory_firstCategory: "detectCategory text = firstCategory text"
proof -
  have occ: "\<And>c. (\<exists>k \<in> set (keywordsOf c). occursIn k text)
                 = (\<exists>k \<in> set (keywordsOf c). sublist k (toLowerCase text))"
    by (auto simp: occursIn_def keywordsOf_lower)
  have d: "distinct (map fst categoryKeywords)"
    unfolding categoryKeywords_keys by (simp add: categoryOrder_def)
  have "detectCategory text =
          find (\<lambda>c. \<exists>k \<in> set (keywordsOf c). sublist k (toLowerCase text)) categoryOrder"
    unfolding detectCategory_def scanKeywords_keys[OF d] categoryKeywords_keys keywordsOf_def ..
  then show ?thesis unfolding firstCategory_def occ .
qed

section \<open>Properties of the formatter and of the timeframe\<close>

lemma dayLabelsMap_map:
  "\<forall>d \<in> set ds. 0 \<le> d \<and> d \<le> 6 \<Longrightarrow>
   dayLabelsMap ds = Inr (map (\<lambda>d. take 3 (dayNames ! nat d)) ds)"
  by (induction ds) (auto simp: dayLabel_def dayNames_def)

lemma formatRecurrence_cases:
  "(rtype r = RDaily \<and> interval r = Some (Num 1) \<longrightarrow> formatRecurrence r = Inr ''Daily'')
   \<and> (rtype r = RDaily \<and> interval r = Some (Num n) \<and> n \<noteq> 1 \<longrightarrow>
        formatRecurrence r = Inr (''Every '' @ showNat n @ '' days''))
   \<and> (rtype r = RWeekly \<and> days r = Some ds \<and> ds \<noteq> [] \<and> (\<forall>d \<in> set ds. 0 \<le> d \<and> d \<le> 6) \<longrightarrow>
        formatRecurrence r = Inr (''Every '' @ join '', '' (map (\<lambda>d. take 3 (dayNames ! nat d)) ds)))
   \<and> (rtype r = ROther \<longrightarrow> formatRecurrence r = Inr [])"
proof -
  have w: "formatRecurrence r = Inr (''Every '' @ join '', '' (map (\<lambda>d. take 3 (dayNames ! nat d)) ds))"
    if "rtype r = RWeekly" "days r = Some ds" "ds \<noteq> []" "\<forall>d \<in> set ds. 0 \<le> d \<and> d \<le> 6"
  proof -
    from that(3) obtain d0 ds0 where c: "ds = d0 # ds0" by (cases ds) auto
    from dayLabelsMap_map[OF that(4)] that(1,2) show ?thesis
      unfolding formatRecurrence_def c by simp
  qed
  show ?thesis
    using w by (auto simp: formatRecurrence_def showNum_def)
qed

lemma le_div_int:
  assumes "0 < (D::int)"
  shows "(m \<le> x div D) = (m * D \<le> x)"
proof
  assume "m \<le> x div D"
  then have "m * D \<le> (x div D) * D" using assms by (simp add: mult_right_mono)
  also have "\<dots> \<le> x"
  proof -
    have "0 \<le> x mod D" using assms by simp
    moreover have "(x div D) * D + x mod D = x" by simp
    ultimately show ?thesis by linarith
  qed
  finally show "m * D \<le> x" .
next
  assume "m * D \<le> x"
  then have "(m * D) div D \<le> x div D" using assms by (rule zdiv_mono1)
  then show "m \<le> x div D" using assms by simp
qed

lemma diffDays_le: "(diffDays d now \<le> k) = (d - now \<le> k * 86400000)"
proof -
  have "(diffDays d now \<le> k) = (- k \<le> (now - d) div 86400000)"
    unfolding diffDays_def by auto
  also have "\<dots> = (- k * 86400000 \<le> now - d)" by (rule le_div_int) simp
  also have "\<dots> = (d - now \<le> k * 86400000)" by auto
  finally show ?thesis .
qed

lemma detectTimeframe_cases:
  "detectTimeframe text hasRecurrence due now =
    (if hasRecurrence \<and> (sublist ''daily'' (toLowerCase text) \<or> sublist ''every day'' (toLowerCase text))
     then Daily
     else if hasRecurrence \<and> (sublist ''weekly'' (toLowerCase text)
                \<or> sublist ''every week'' (toLowerCase text)
                \<or> test True everyWordDay (toLowerCase text))
     then Weekly
     else if hasRecurrence \<and> (sublist ''monthly'' (toLowerCase text)
                \<or> sublist ''every month'' (toLowerCase text))
     then Monthly
     else (case due of
             None \<Rightarrow> Once
           | Some d \<Rightarrow>
               if d - now \<le> 1 * 86400000 then Daily
               else if d - now \<le> 7 * 86400000 then Weekly
               else if d - now \<le> 30 * 86400000 then Monthly
               else Once))"
  unfolding detectTimeframe_def Let_def includesStr_sublist
  by (simp add: diffDays_le split: option.splits)

lemma detectPriority_default:
  assumes "\<forall>e \<in> set priorityKeywords. \<forall>k \<in> set (snd e). \<not> sublist k (toLowerCase input)"
  shows "detectPriority input = Medium"
proof -
  have "find (\<lambda>e. \<exists>k \<in> set (snd e). sublist k (toLowerCase input)) priorityKeywords = None"
    using assms by (simp add: find_None_iff)
  then show ?thesis by (simp add: detectPriority_def scanKeywords_find)
qed

section \<open>Properties of the segment loop\<close>

lemma keepFirst_subset: "set (keepFirst key xs) \<subseteq> set xs"
  by (induction key xs rule: keepFirst.induct) auto

lemma keepFirst_distinct: "distinct (map key (keepFirst key xs))"
proof (induction key xs rule: keepFirst.induct)
  case (1 key)
  then show ?case by simp
next
  case (2 key x xs)
  have "key x \<notin> key ` set (keepFirst key (filter (\<lambda>y. key y \<noteq> key x) xs))"
    using keepFirst_subset[of key "filter (\<lambda>y. key y \<noteq> key x) xs"] by auto
  with 2 show ?case by simp
qed

lemma segmentLoop_titles:
  "map ctitle (segmentLoop seen segs) =
     keepFirst toLowerCase
       (filter (\<lambda>c. toLowerCase c \<notin> set seen)
          (filter (\<lambda>c. 3 \<le> length c) (map cleanTaskText segs)))"
proof (induction segs arbitrary: seen)
  case Nil
  then show ?case by simp
next
  case (Cons seg rest)
  define c where "c = cleanTaskText seg"
  define cands where "cands = filter (\<lambda>c. 3 \<le> length c) (map cleanTaskText rest)"
  show ?case
  proof (cases "length c < 3 \<or> toLowerCase c \<in> set seen")
    case True
    then show ?thesis using Cons.IH[of seen] by (auto simp: c_def Let_def)
  next
    case False
    have ff: "filter (\<lambda>y. toLowerCase y \<noteq> toLowerCase c) (filter (\<lambda>y. toLowerCase y \<notin> set seen) cands)
              = filter (\<lambda>y. toLowerCase y \<notin> set (toLowerCase c # seen)) cands"
      by (induction cands) auto
    from False have "map ctitle (segmentLoop seen (seg # rest))
        = c # map ctitle (segmentLoop (toLowerCase c # seen) rest)"
      by (simp add: c_def Let_def)
    also have "\<dots> = c # keepFirst toLowerCase (filter (\<lambda>y. toLowerCase y \<notin> set (toLowerCase c # seen)) cands)"
      using Cons.IH[of "toLowerCase c # seen"] by (simp add: cands_def)
    also have "\<dots> = keepFirst toLowerCase (filter (\<lambda>y. toLowerCase y \<notin> set seen) (c # cands))"
      using False ff by simp
    also have "c # cands = filter (\<lambda>c. 3 \<le> length c) (map cleanTaskText (seg # rest))"
      using False by (simp add: c_def cands_def)
    finally show ?thesis .
  qed
qed

lemma parseInput_titles: "map ctitle (parseInput input) = keepFirst toLowerCase (cleanedSegments input)"
  by (simp add: parseInput_def segmentLoop_titles cleanedSegments_def)

section \<open>Properties of the title cleaner\<close>

lemma of_char_toUpperChar:
  "(of_char (toUpperChar c) :: nat) = (if isLower c then of_char c - 32 else of_char c)"
  by (auto simp: toUpperChar_def isLower_def)

lemma isSpace_toUpperChar: "isSpace (toUpperChar c) = isSpace c"
  by (auto simp: isSpace_def of_char_toUpperChar isLower_def)

lemma isLower_toUpperChar: "\<not> isLower (toUpperChar c)"
  by (auto simp: isLower_def of_char_toUpperChar)

lemma toUpperChar_idem: "toUpperChar (toUpperChar c) = toUpperChar c"
  using isLower_toUpperChar[of c] by (simp add: toUpperChar_def)


lemma ms_Star_space_hd: "\<exists>q rest. ms ci (Star ws) p s = (q, dropWhile isSpace s) # rest"
proof (induction s arbitrary: p)
  case Nil
  show ?case by (subst ms.simps(7)) simp
next
  case (Cons c cs)
  show ?case
  proof (cases "isSpace c")
    case True
    from Cons[of "Some c"] obtain q rest where "ms ci (Star ws) (Some c) cs = (q, dropWhile isSpace cs) # rest"
      by blast
    with True show ?thesis by (subst ms.simps(7)) simp
  next
    case False
    then show ?thesis by (subst ms.simps(7)) simp
  qed
qed

lemma ms_Plus_space_Cons:
  "ms ci (Plus ws) p (c # cs) = (if isSpace c then ms ci (Star ws) (Some c) cs else [])"
  by (simp add: Plus_def)

lemma ms_Plus_space_Nil: "ms ci (Plus ws) p [] = []"
  by (simp add: Plus_def)

lemma collapse_replaceFrom:
  "replaceFrom ci (Plus ws) (\<lambda>m. '' '') p s = collapseRef s"
proof (induction s arbitrary: p rule: collapseRef.induct)
  case 1
  show ?case by (subst replaceFrom.simps) (simp add: ms_Plus_space_Nil)
next
  case (2 c cs)
  show ?case
  proof (cases "isSpace c")
    case True
    from ms_Star_space_hd[of ci "Some c" cs] obtain q rest where
      m: "ms ci (Star ws) (Some c) cs = (q, dropWhile isSpace cs) # rest" by blast
    have l: "length (dropWhile isSpace cs) < length (c # cs)"
      using length_dropWhile_le[of isSpace cs] by simp
    show ?thesis
      using True m l 2(1)[OF True, of q]
      by (subst replaceFrom.simps) (simp add: ms_Plus_space_Cons)
  next
    case False
    then show ?thesis
      using 2(2)[OF False, of "Some c"]
      by (subst replaceFrom.simps) (simp add: ms_Plus_space_Cons)
  qed
qed

lemma collapseSpaces_ref: "collapseSpaces s = collapseRef s"
  by (simp add: collapseSpaces_def replaceAll_def collapse_replaceFrom)

lemma isSpace_blank: "isSpace (CHR '' '')"
  by (simp add: isSpace_def)

lemma spacesOk_Cons_nonspace: "\<not> isSpace c \<Longrightarrow> spacesOk (c # x) = spacesOk x"
  by (cases x) auto

lemma spacesOk_Cons_blank:
  "spacesOk (CHR '' '' # x) = ((x = [] \<or> \<not> isSpace (hd x)) \<and> spacesOk x)"
  by (cases x) (auto simp: isSpace_blank)

lemma collapseRef_Nil_iff: "(collapseRef s = []) = (s = [])"
  by (cases s) auto

lemma collapseRef_hd: "s \<noteq> [] \<Longrightarrow> isSpace (hd (collapseRef s)) = isSpace (hd s)"
  by (cases s) (auto simp: isSpace_blank)

lemma dropWhile_hd: "dropWhile P s = [] \<or> \<not> P (hd (dropWhile P s))"
  using hd_dropWhile[of P s] by blast

lemma spacesOk_collapseRef: "spacesOk (collapseRef s)"
proof (induction s rule: collapseRef.induct)
  case 1
  show ?case by simp
next
  case (2 c cs)
  show ?case
  proof (cases "isSpace c")
    case True
    have "collapseRef (dropWhile isSpace cs) = []
          \<or> \<not> isSpace (hd (collapseRef (dropWhile isSpace cs)))"
      using dropWhile_hd[of isSpace cs] collapseRef_hd[of "dropWhile isSpace cs"]
      by (auto simp: collapseRef_Nil_iff)
    with True 2(1) show ?thesis by (simp add: spacesOk_Cons_blank)
  next
    case False
    with 2(2) show ?thesis by (simp add: spacesOk_Cons_nonspace)
  qed
qed

lemma collapseRef_fixed: "spacesOk s \<Longrightarrow> collapseRef s = s"
proof (induction s rule: spacesOk.induct)
  case 1
  show ?case by simp
next
  case (2 c)
  then show ?case by simp
next
  case (3 c d cs)
  then show ?case by auto
qed

lemma spacesOk_append: "spacesOk (xs @ ys) \<Longrightarrow> spacesOk xs \<and> spacesOk ys"
proof (induction xs rule: spacesOk.induct)
  case 1
  then show ?case by simp
next
  case (2 c)
  then show ?case by (cases ys) auto
next
  case (3 c d cs)
  then show ?case by auto
qed

lemma trimEnd_split: "s = trimEnd s @ rev (takeWhile isSpace (rev s))"
proof -
  have "rev (dropWhile isSpace (rev s)) @ rev (takeWhile isSpace (rev s))
        = rev (takeWhile isSpace (rev s) @ dropWhile isSpace (rev s))"
    by (simp only: rev_append)
  also have "\<dots> = rev (rev s)" by (simp only: takeWhile_dropWhile_id)
  also have "\<dots> = s" by simp
  finally show ?thesis by (simp add: trimEnd_def)
qed

lemma spacesOk_trim: "spacesOk s \<Longrightarrow> spacesOk (trim s)"
proof -
  assume a: "spacesOk s"
  have "s = takeWhile isSpace s @ trimStart s" by (simp add: trimStart_def)
  with a have 1: "spacesOk (trimStart s)" using spacesOk_append by metis
  have "trimStart s = trim s @ rev (takeWhile isSpace (rev (trimStart s)))"
    unfolding trim_def by (rule trimEnd_split)
  with 1 show ?thesis using spacesOk_append by metis
qed

lemma trimEnd_fixed:
  assumes "s = [] \<or> \<not> isSpace (last s)"
  shows "trimEnd s = s"
proof (cases "rev s")
  case Nil
  then show ?thesis by (simp add: trimEnd_def)
next
  case (Cons c cs)
  then have s: "s = rev cs @ [c]" by (metis rev.simps(2) rev_rev_ident)
  with assms s have "\<not> isSpace c" by simp
  with Cons show ?thesis by (simp add: trimEnd_def s)
qed

lemma trimStart_fixed: "s = [] \<or> \<not> isSpace (hd s) \<Longrightarrow> trimStart s = s"
  by (cases s) (auto simp: trimStart_def)

lemma trim_fixed: "edgesOk z \<Longrightarrow> trim z = z"
  by (auto simp: edgesOk_def trim_def trimStart_fixed trimEnd_fixed)


lemma edgesOk_trim: "edgesOk (trim s)"
proof (cases "trim s = []")
  case True
  then show ?thesis by (simp add: edgesOk_def)
next
  case False
  define x where "x = trimStart s"
  have t: "trim s = trimEnd x" by (simp add: trim_def x_def)
  have split: "x = trim s @ rev (takeWhile isSpace (rev x))"
    unfolding t by (rule trimEnd_split)
  with False have "x \<noteq> []" by auto
  then have "\<not> isSpace (hd x)" using dropWhile_hd[of isSpace s] by (auto simp: x_def trimStart_def)
  moreover have "hd x = hd (trim s)" using split False by (metis hd_append2)
  moreover have "\<not> isSpace (last (trim s))"
  proof -
    have "dropWhile isSpace (rev x) \<noteq> []" using False t by (auto simp: trimEnd_def)
    then have "\<not> isSpace (hd (dropWhile isSpace (rev x)))"
      using dropWhile_hd[of isSpace "rev x"] by blast
    moreover have "last (trim s) = hd (dropWhile isSpace (rev x))"
      unfolding t trimEnd_def using \<open>dropWhile isSpace (rev x) \<noteq> []\<close> by (simp add: last_rev)
    ultimately show ?thesis by simp
  qed
  ultimately show ?thesis by (simp add: edgesOk_def)
qed

lemma capitalize_Cons: "capitalize (c # cs) = toUpperChar c # cs"
  by (simp add: capitalize_def toUpperCase_def)

lemma capitalize_Nil: "capitalize [] = []"
  by (simp add: capitalize_def)

lemma capitalize_idem: "capitalize (capitalize z) = capitalize z"
  by (cases z) (simp_all add: capitalize_Cons capitalize_Nil toUpperChar_idem)

lemma edgesOk_capitalize: "edgesOk z \<Longrightarrow> edgesOk (capitalize z)"
  by (cases z) (auto simp: capitalize_Cons capitalize_Nil edgesOk_def isSpace_toUpperChar)

lemma spacesOk_capitalize: "spacesOk z \<Longrightarrow> edgesOk z \<Longrightarrow> spacesOk (capitalize z)"
  by (cases z)
     (auto simp: capitalize_Cons capitalize_Nil edgesOk_def isSpace_toUpperChar
        spacesOk_Cons_nonspace)

lemma tidy_fixed:
  assumes "spacesOk z" "edgesOk z" "capitalize z = z"
  shows "tidy z = z"
  using assms by (simp add: tidy_def collapseSpaces_ref collapseRef_fixed trim_fixed)

lemma tidy_idem: "tidy (tidy s) = tidy s"
proof -
  define y where "y = trim (collapseSpaces s)"
  have 1: "spacesOk y" unfolding y_def collapseSpaces_ref
    by (rule spacesOk_trim) (rule spacesOk_collapseRef)
  have 2: "edgesOk y" unfolding y_def by (rule edgesOk_trim)
  have "tidy (capitalize y) = capitalize y"
    by (rule tidy_fixed) (simp_all add: spacesOk_capitalize edgesOk_capitalize capitalize_idem 1 2)
  then show ?thesis by (simp add: tidy_def y_def)
qed

lemma cleanTitle_stable:
  assumes "removePatterns patternsToRemove (cleanTitle s) = cleanTitle s"
  shows "cleanTitle (cleanTitle s) = cleanTitle s"
proof -
  have "cleanTitle (cleanTitle s) = tidy (cleanTitle s)"
    using assms by (simp add: cleanTitle_def)
  also have "\<dots> = cleanTitle s" by (simp add: cleanTitle_def tidy_idem)
  finally show ?thesis .
qed

section \<open>Properties of the recurrence detector\<close>

lemma of_char_toLowerChar:
  "(of_char (toLowerChar c) :: nat) = (if isUpper c then of_char c + 32 else of_char c)"
  by (auto simp: toLowerChar_def isUpper_def)

lemma noUpper_toLowerCase: "noUpper (toLowerCase s)"
  by (induction s) (auto simp: noUpper_def toLowerCase_def isUpper_def of_char_toLowerChar)


lemma noUpper_append: "noUpper (xs @ ys) = (noUpper xs \<and> noUpper ys)"
  by (simp add: noUpper_def)

lemma noUpper_suffix: "suffix t s \<Longrightarrow> noUpper s \<Longrightarrow> noUpper t"
  by (auto simp: suffix_def noUpper_append)

lemma noUpper_take: "noUpper s \<Longrightarrow> noUpper (take n s)"
  by (metis append_take_drop_id noUpper_append)

lemma upper_code_eq:
  fixes a b :: nat
  assumes "97 \<le> a \<and> a \<le> 122" "\<not> (65 \<le> b \<and> b \<le> 90)"
    "(if 97 \<le> a \<and> a \<le> 122 then a - 32 else a) = (if 97 \<le> b \<and> b \<le> 122 then b - 32 else b)"
  shows "b = a"
  using assms by (auto split: if_splits)

lemma eqChar_lower:
  assumes "isLower k" "\<not> isUpper c" "eqChar True k c"
  shows "c = k"
proof -
  from assms(3) have "(of_char (toUpperChar k) :: nat) = of_char (toUpperChar c)"
    by (simp add: eqChar_def)
  then have "(if isLower k then (of_char k :: nat) - 32 else of_char k)
             = (if isLower c then (of_char c :: nat) - 32 else of_char c)"
    by (simp only: of_char_toUpperChar)
  with assms(1,2) have "(of_char c :: nat) = of_char k"
    unfolding isLower_def isUpper_def by (rule upper_code_eq)
  then show ?thesis by (simp only: of_char_eq_iff)
qed

lemma matchStr_exact:
  "matchStr True k p s = Some (q, t) \<Longrightarrow> list_all isLower k \<Longrightarrow> noUpper s \<Longrightarrow> s = k @ t"
proof (induction k arbitrary: p s)
  case Nil
  then show ?case by simp
next
  case (Cons a k)
  from Cons.prems(1) obtain c cs where s: "s = c # cs" by (cases s) auto
  with Cons.prems have e: "eqChar True a c" and m: "matchStr True k (Some c) cs = Some (q, t)"
    by (auto split: if_splits)
  from Cons.prems s have "isLower a" "\<not> isUpper c" "noUpper cs" "list_all isLower k"
    by (auto simp: noUpper_def)
  with eqChar_lower[OF _ _ e] Cons.IH[OF m] s show ?case by simp
qed

lemma matchStr_complete: "\<exists>q. matchStr ci k p (k @ t) = Some (q, t)"
  by (induction k arbitrary: p) (auto simp: eqChar_def)


lemma set_ms_Str: "((q, t) \<in> set (ms ci (Str k) p s)) = (matchStr ci k p s = Some (q, t))"
  by (cases "matchStr ci k p s") auto


lemma ms_Star_self: "(p, s) \<in> set (ms ci (Star a) p s)"
  by (subst ms.simps(7)) simp

lemma ms_Star_step:
  assumes "(q, t) \<in> set (ms ci a p s)" "length t < length s" "(q', t') \<in> set (ms ci (Star a) q t)"
  shows "(q', t') \<in> set (ms ci (Star a) p s)"
  using assms by (subst ms.simps(7)) force







lemma every_lower: "list_all isLower ''every''"
  by code_simp


lemma set_ms_Seq:
  "((q, t) \<in> set (ms ci (Seq a b) p s))
     = (\<exists>q' t'. (q', t') \<in> set (ms ci a p s) \<and> (q, t) \<in> set (ms ci b q' t'))"
  by auto















lemma patternLoop_find:
  "list_all (\<lambda>e. captureIsDigits (fst e)) tbl \<Longrightarrow>
   patternLoop tbl lt =
     (case find (\<lambda>e. matchPattern (fst e) lt \<noteq> None) tbl of
        None \<Rightarrow> None
      | Some e \<Rightarrow>
          Some \<lparr>rtype = snd e, days = None, dayOfMonth = None,
                interval = Some (case matchPattern (fst e) lt of
                                   Some (Some d) \<Rightarrow> parseInt d
                                 | _ \<Rightarrow> Num 1)\<rparr>)"
proof (induction tbl)
  case Nil
  show ?case by simp
next
  case (Cons e tbl)
  obtain pat ty where e: "e = (pat, ty)" by (cases e)
  show ?case
  proof (cases "matchPattern pat lt")
    case None
    with Cons e show ?thesis by simp
  next
    case (Some m1)
    show ?thesis
    proof (cases m1)
      case None
      with Some e show ?thesis by simp
    next
      case (Some d)
      with \<open>matchPattern pat lt = Some m1\<close> obtain pre cap post where
        pat: "pat = Capture pre cap post" and m: "matchCap True pre cap post None lt = Some d"
        by (cases pat) (auto split: if_splits)
      from Cons.prems e pat have cap: "cap = Plus dg" by (simp add: captureIsDigits_def)
      from matchCap_digits[OF m[unfolded cap]] have "d \<noteq> []" by auto
      with Some \<open>matchPattern pat lt = Some m1\<close> e show ?thesis by simp
    qed
  qed
qed

lemma patternLoop_firstPattern: "patternLoop recurrencePatterns lt = firstPattern lt"
  unfolding firstPattern_def by (rule patternLoop_find[OF recurrencePatterns_shape])




section \<open>Properties of the search\<close>

lemma ms_Star_class_sound:
  "(q, t) \<in> set (ms ci (Star (Cls k)) p s) \<Longrightarrow> \<exists>w. s = w @ t \<and> list_all (inCset ci k) w"
proof (induction s arbitrary: p)
  case Nil
  then show ?case by (subst (asm) ms.simps(7)) simp
next
  case (Cons c cs)
  from Cons.prems consider "(q, t) = (p, c # cs)"
    | "inCset ci k c" "(q, t) \<in> set (ms ci (Star (Cls k)) (Some c) cs)"
    by (subst (asm) ms.simps(7)) (auto split: if_splits)
  then show ?case
  proof cases
    case 1
    then show ?thesis by simp
  next
    case 2
    from Cons.IH[OF 2(2)] obtain w where "cs = w @ t" "list_all (inCset ci k) w" by blast
    with 2(1) have "c # cs = (c # w) @ t \<and> list_all (inCset ci k) (c # w)" by simp
    then show ?thesis by blast
  qed
qed

lemma ms_Plus_class_sound:
  assumes "(q, t) \<in> set (ms ci (Plus (Cls k)) p s)"
  shows "\<exists>w. s = w @ t \<and> w \<noteq> [] \<and> list_all (inCset ci k) w"
proof (cases s)
  case Nil
  with assms show ?thesis by (simp add: Plus_def)
next
  case (Cons c cs)
  with assms have c: "inCset ci k c" and m: "(q, t) \<in> set (ms ci (Star (Cls k)) (Some c) cs)"
    by (auto simp: Plus_def split: if_splits)
  from ms_Star_class_sound[OF m] obtain w where "cs = w @ t" "list_all (inCset ci k) w" by blast
  with c Cons have "s = (c # w) @ t \<and> c # w \<noteq> [] \<and> list_all (inCset ci k) (c # w)" by simp
  then show ?thesis by blast
qed

lemma ms_Star_class_complete:
  "list_all (inCset ci k) w \<Longrightarrow> \<exists>q. (q, t) \<in> set (ms ci (Star (Cls k)) p (w @ t))"
proof (induction w arbitrary: p)
  case Nil
  show ?case using ms_Star_self[of p t ci "Cls k"] by auto
next
  case (Cons c w)
  then obtain q where q: "(q, t) \<in> set (ms ci (Star (Cls k)) (Some c) (w @ t))" by auto
  have "(Some c, w @ t) \<in> set (ms ci (Cls k) p ((c # w) @ t))" using Cons.prems by simp
  from ms_Star_step[OF this _ q] show ?case by auto
qed

lemma ms_Plus_class_complete:
  assumes "w \<noteq> []" "list_all (inCset ci k) w"
  shows "\<exists>q. (q, t) \<in> set (ms ci (Plus (Cls k)) p (w @ t))"
proof -
  from assms obtain c cs where w: "w = c # cs" "inCset ci k c" "list_all (inCset ci k) cs"
    by (cases w) auto
  from ms_Star_class_complete[OF w(3), of t "Some c"] w show ?thesis
    by (auto simp: Plus_def)
qed

lemma search_iff:
  "(search ci r p s \<noteq> None) =
     (\<exists>u v. s = u @ v \<and> ms ci r (if u = [] then p else Some (last u)) v \<noteq> [])"
proof (induction s arbitrary: p)
  case Nil
  show ?case by (subst search.simps) (auto split: list.splits)
next
  case (Cons c cs)
  show ?case
  proof (cases "ms ci r p (c # cs) = []")
    case False
    then have "search ci r p (c # cs) \<noteq> None"
      by (subst search.simps) (auto split: list.splits)
    moreover from False have "c # cs = [] @ (c # cs) \<and>
        ms ci r (if ([]::string) = [] then p else Some (last [])) (c # cs) \<noteq> []" by simp
    then have "\<exists>u v. c # cs = u @ v \<and> ms ci r (if u = [] then p else Some (last u)) v \<noteq> []"
      by blast
    ultimately show ?thesis by simp
  next
    case True
    then have "(search ci r p (c # cs) \<noteq> None) = (search ci r (Some c) cs \<noteq> None)"
      by (subst search.simps) simp
    also have "\<dots> = (\<exists>u v. cs = u @ v \<and> ms ci r (if u = [] then Some c else Some (last u)) v \<noteq> [])"
      by (rule Cons.IH)
    also have "\<dots> = (\<exists>u v. c # cs = u @ v \<and> ms ci r (if u = [] then p else Some (last u)) v \<noteq> [])"
    proof
      assume "\<exists>u v. cs = u @ v \<and> ms ci r (if u = [] then Some c else Some (last u)) v \<noteq> []"
      then obtain u v where uv: "cs = u @ v" "ms ci r (if u = [] then Some c else Some (last u)) v \<noteq> []"
        by blast
      then have "c # cs = (c # u) @ v \<and> ms ci r (if c # u = [] then p else Some (last (c # u))) v \<noteq> []"
        by auto
      then show "\<exists>u v. c # cs = u @ v \<and> ms ci r (if u = [] then p else Some (last u)) v \<noteq> []"
        by blast
    next
      assume "\<exists>u v. c # cs = u @ v \<and> ms ci r (if u = [] then p else Some (last u)) v \<noteq> []"
      then obtain u v where uv: "c # cs = u @ v" "ms ci r (if u = [] then p else Some (last u)) v \<noteq> []"
        by blast
      with True obtain u' where u: "u = c # u'" by (cases u) auto
      with uv have "cs = u' @ v \<and> ms ci r (if u' = [] then Some c else Some (last u')) v \<noteq> []"
        by auto
      then show "\<exists>u v. cs = u @ v \<and> ms ci r (if u = [] then Some c else Some (last u)) v \<noteq> []"
        by blast
    qed
    finally show ?thesis .
  qed
qed

lemma day_lower: "list_all isLower ''day''"
  by code_simp

lemma everyWordDay_shape:
  "everyWordDay = Seq (Str ''every'') (Seq (Plus ws) (Seq (Plus wd) (Str ''day'')))"
  by (simp add: everyWordDay_def)

lemma everyWordDay_sound:
  assumes "ms True everyWordDay p s \<noteq> []" "noUpper s"
  shows "\<exists>sp w v. s = ''every'' @ sp @ w @ ''day'' @ v \<and> sp \<noteq> [] \<and> list_all isSpace sp
           \<and> w \<noteq> [] \<and> list_all isWord w"
proof -
  from assms(1) obtain q t where "(q, t) \<in> set (ms True everyWordDay p s)"
    by (cases "ms True everyWordDay p s") auto
  then obtain q0 t0 q1 t1 q2 t2 where
    a: "(q0, t0) \<in> set (ms True (Str ''every'') p s)" and
    b: "(q1, t1) \<in> set (ms True (Plus ws) q0 t0)" and
    c: "(q2, t2) \<in> set (ms True (Plus wd) q1 t1)" and
    d: "(q, t) \<in> set (ms True (Str ''day'') q2 t2)"
    unfolding everyWordDay_shape set_ms_Seq by blast
  from a have "matchStr True ''every'' p s = Some (q0, t0)" unfolding set_ms_Str .
  from matchStr_exact[OF this every_lower assms(2)] have s: "s = ''every'' @ t0" .
  from ms_Plus_class_sound[OF b] obtain sp where sp: "t0 = sp @ t1" "sp \<noteq> []" "list_all isSpace sp"
    by (auto simp: list_all_iff)
  from ms_Plus_class_sound[OF c] obtain w where w: "t1 = w @ t2" "w \<noteq> []" "list_all isWord w"
    by (auto simp: list_all_iff)
  have "suffix t2 s"
    using ms_suffix[OF a] ms_suffix[OF b] ms_suffix[OF c] by (meson suffix_order.trans)
  then have n2: "noUpper t2" using assms(2) by (rule noUpper_suffix)
  from d have "matchStr True ''day'' q2 t2 = Some (q, t)" unfolding set_ms_Str .
  from matchStr_exact[OF this day_lower n2] have t2: "t2 = ''day'' @ t" .
  have "s = ''every'' @ sp @ w @ ''day'' @ t" unfolding s sp(1) w(1) t2 ..
  with sp(2,3) w(2,3) show ?thesis by blast
qed

lemma everyWordDay_complete:
  assumes "sp \<noteq> []" "list_all isSpace sp" "w \<noteq> []" "list_all isWord w"
  shows "ms True everyWordDay p (''every'' @ sp @ w @ ''day'' @ v) \<noteq> []"
proof -
  from matchStr_complete[of True "''every''" p "sp @ w @ ''day'' @ v"] obtain q0 where
    "matchStr True ''every'' p (''every'' @ sp @ w @ ''day'' @ v) = Some (q0, sp @ w @ ''day'' @ v)"
    by blast
  then have a: "(q0, sp @ w @ ''day'' @ v) \<in> set (ms True (Str ''every'') p (''every'' @ sp @ w @ ''day'' @ v))"
    unfolding set_ms_Str .
  from assms(2) have "list_all (inCset True CSpace) sp" by (simp add: list_all_iff)
  from ms_Plus_class_complete[OF assms(1) this, of "w @ ''day'' @ v" q0] obtain q1 where
    b: "(q1, w @ ''day'' @ v) \<in> set (ms True (Plus ws) q0 (sp @ w @ ''day'' @ v))" by blast
  from assms(4) have "list_all (inCset True CWord) w" by (simp add: list_all_iff)
  from ms_Plus_class_complete[OF assms(3) this, of "''day'' @ v" q1] obtain q2 where
    c: "(q2, ''day'' @ v) \<in> set (ms True (Plus wd) q1 (w @ ''day'' @ v))" by blast
  from matchStr_complete[of True "''day''" q2 v] obtain q where
    "matchStr True ''day'' q2 (''day'' @ v) = Some (q, v)" by blast
  then have d: "(q, v) \<in> set (ms True (Str ''day'') q2 (''day'' @ v))" unfolding set_ms_Str .
  from a b c d have "(q, v) \<in> set (ms True everyWordDay p (''every'' @ sp @ w @ ''day'' @ v))"
    unfolding everyWordDay_shape set_ms_Seq by blast
  then show ?thesis by auto
qed

lemma test_everyWordDay:
  assumes "noUpper lt"
  shows "test True everyWordDay lt =
     (\<exists>u sp w v. lt = u @ ''every'' @ sp @ w @ ''day'' @ v \<and> sp \<noteq> [] \<and> list_all isSpace sp
                  \<and> w \<noteq> [] \<and> list_all isWord w)"
proof
  assume "test True everyWordDay lt"
  then obtain u v' where lt: "lt = u @ v'"
    and m: "ms True everyWordDay (if u = [] then None else Some (last u)) v' \<noteq> []"
    unfolding test_def search_iff by blast
  from assms lt have "noUpper v'" by (simp add: noUpper_append)
  from everyWordDay_sound[OF m this] lt
  show "\<exists>u sp w v. lt = u @ ''every'' @ sp @ w @ ''day'' @ v \<and> sp \<noteq> [] \<and> list_all isSpace sp
                  \<and> w \<noteq> [] \<and> list_all isWord w"
    by blast
next
  assume "\<exists>u sp w v. lt = u @ ''every'' @ sp @ w @ ''day'' @ v \<and> sp \<noteq> [] \<and> list_all isSpace sp
                  \<and> w \<noteq> [] \<and> list_all isWord w"
  then obtain u sp w v where lt: "lt = u @ (''every'' @ sp @ w @ ''day'' @ v)"
    and h: "sp \<noteq> []" "list_all isSpace sp" "w \<noteq> []" "list_all isWord w"
    by auto
  from everyWordDay_complete[OF h, of "if u = [] then None else Some (last u)" v]
  show "test True everyWordDay lt"
    unfolding test_def search_iff lt by blast
qed

section \<open>Properties of the interval\<close>

lemma toNumber_small: "n < 9007199254740992 \<Longrightarrow> toNumber n = Num n"
  by (simp add: toNumber_def)

lemma toNumber_not_NaN: "toNumber n \<noteq> NaN"
  by (simp add: toNumber_def Let_def)

lemma parseInt_digits:
  assumes "d \<noteq> []" "list_all isDigit d"
  shows "parseInt d = toNumber (decimalValue d)"
proof -
  from assms(2) have tw: "takeWhile isDigit d = d" by (simp add: list_all_iff)
  show ?thesis unfolding parseInt_def Let_def tw using assms(1) by simp
qed

lemma capAt_all_digits:
  assumes "capAt ci pre (Plus dg) post p s = Some d"
  shows "d \<noteq> [] \<and> list_all isDigit d"
proof -
  from assms obtain q t q' t' where 2: "(q', t') \<in> set (ms ci (Plus dg) q t)"
    and 3: "d = take (length t - length t') t"
    unfolding capAt_def by (auto dest!: firstSome_Some split: if_splits)
  from ms_Plus_class_sound[OF 2] obtain w where w: "t = w @ t'" "w \<noteq> []" "list_all isDigit w"
    by (auto simp: list_all_iff)
  from 3 w(1) have "d = w" by simp
  with w show ?thesis by simp
qed

lemma matchCap_all_digits:
  "matchCap ci pre (Plus dg) post p s = Some d \<Longrightarrow> d \<noteq> [] \<and> list_all isDigit d"
  by (induction s arbitrary: p) (auto split: option.splits dest: capAt_all_digits)

lemma firstPattern_entry:
  assumes "firstPattern lt = Some r"
  shows "days r = None \<and>
         (\<exists>e. find (\<lambda>e. matchPattern (fst e) lt \<noteq> None) recurrencePatterns = Some e
              \<and> rtype r = snd e
              \<and> (case fst e of
                    Plain x \<Rightarrow> interval r = Some (Num 1)
                  | Capture pre cap post \<Rightarrow>
                      (\<exists>d. matchCap True pre cap post None lt = Some d \<and> d \<noteq> []
                           \<and> list_all isDigit d
                           \<and> interval r = Some (parseInt d)
                           \<and> parseInt d \<noteq> NaN
                           \<and> (decimalValue d < 9007199254740992 \<longrightarrow>
                                interval r = Some (Num (decimalValue d))))))"
proof -
  from assms obtain e where f: "find (\<lambda>e. matchPattern (fst e) lt \<noteq> None) recurrencePatterns = Some e"
    and r: "r = \<lparr>rtype = snd e, days = None, dayOfMonth = None,
                interval = Some (case matchPattern (fst e) lt of
                                   Some (Some d) \<Rightarrow> parseInt d
                                 | _ \<Rightarrow> Num 1)\<rparr>"
    unfolding firstPattern_def by (auto split: option.splits)
  from f have m: "matchPattern (fst e) lt \<noteq> None" and mem: "e \<in> set recurrencePatterns"
    by (auto simp: find_Some_iff in_set_conv_nth)
  have "case fst e of
          Plain x \<Rightarrow> interval r = Some (Num 1)
        | Capture pre cap post \<Rightarrow>
            (\<exists>d. matchCap True pre cap post None lt = Some d \<and> d \<noteq> []
                 \<and> list_all isDigit d
                 \<and> interval r = Some (parseInt d)
                 \<and> parseInt d \<noteq> NaN
                 \<and> (decimalValue d < 9007199254740992 \<longrightarrow>
                      interval r = Some (Num (decimalValue d))))"
  proof (cases "fst e")
    case (Plain x)
    with r show ?thesis by (auto split: if_splits)
  next
    case (Capture pre cap post)
    from recurrencePatterns_shape mem Capture have cap: "cap = Plus dg"
      by (auto simp: list_all_iff captureIsDigits_def)
    from m Capture obtain d where d: "matchCap True pre cap post None lt = Some d"
      by auto
    from matchCap_all_digits[OF d[unfolded cap]] have dd: "d \<noteq> []" "list_all isDigit d" by auto
    from r Capture d have i: "interval r = Some (parseInt d)" by simp
    have p: "parseInt d = toNumber (decimalValue d)" using dd by (rule parseInt_digits)
    from i p toNumber_not_NaN[of "decimalValue d"] toNumber_small[of "decimalValue d"] d dd Capture
    show ?thesis by auto
  qed
  with f r show ?thesis by auto
qed

section \<open>Evaluation on concrete inputs\<close>

lemma detectRecurrence_days_example:
  "detectRecurrence ''every Monday and Wednesday'' =
     Some \<lparr>rtype = RWeekly, days = Some [1, 3], dayOfMonth = None, interval = Some (Num 1)\<rparr>"
  by code_simp

lemma detectRecurrence_weeks_example:
  "detectRecurrence ''every 3 weeks'' =
     Some \<lparr>rtype = RWeekly, days = None, dayOfMonth = None, interval = Some (Num 3)\<rparr>"
  by code_simp

lemma detectCategory_example:
  "detectCategory ''schedule a meeting with the client'' = Some Work"
  by code_simp

section \<open>The claims\<close>

text \<open>
  C7. The category classifier of \<open>nlp.ts\<close> returns the first category, in the order
  work, health, personal, finance, learning, social, one of whose keywords occurs in the
  text without regard to case, and nothing when no keyword occurs. On
  "schedule a meeting with the client" it returns work.
\<close>

theorem detectCategory_first_match:
  "detectCategory text = firstCategory text
   \<and> detectCategory ''schedule a meeting with the client'' = Some Work"
  using detectCategory_firstCategory detectCategory_example by simp

text \<open>
  C8. \<open>parseInput\<close> on the text "Go to the gym, call mom, pay the electric bill"
  returns exactly three candidates, in the order of the segments and each selected:
  "Go to the gym" with category health, "Call mom" with category social and
  "Pay the electric bill" with category finance.
\<close>

theorem parseInput_three_tasks:
  "parseInput ''Go to the gym, call mom, pay the electric bill'' =
     [\<lparr>ctitle = ''Go to the gym'', ccategory = Health, cpriority = Medium, selected = True\<rparr>,
      \<lparr>ctitle = ''Call mom'', ccategory = Social, cpriority = Medium, selected = True\<rparr>,
      \<lparr>ctitle = ''Pay the electric bill'', ccategory = Finance, cpriority = Medium,
        selected = True\<rparr>]"
  by code_simp

text \<open>
  C5. The input "strengthen my core" has no delimiter between its words, yet the
  alternative \<open>then\s+\<close> of the split expression matches inside the word
  "strengthen": \<open>parseInput\<close> returns the two candidates "Streng" and "My core".
\<close>

theorem parseInput_splits_inside_word:
  "map ctitle (parseInput ''strengthen my core'') = [''Streng'', ''My core'']"
  by code_simp

text \<open>
  C10, as amended. Whenever \<open>detectRecurrence\<close> returns a pattern: if the field
  \<open>days\<close> is present, the type is weekly, the days are a non-empty, strictly
  increasing list of indices between 0 and 6, and the interval is 1; if it is absent,
  the pattern comes from the first entry of the table that matches, with the type of
  that entry, and the interval is 1 for an entry without a capture group (the six
  fixed phrases) and, for "every N days" and "every N weeks", the Number that
  \<open>parseInt\<close> gives for the captured run of digits, which is not empty: never
  \<open>NaN\<close>, and equal to the decimal value of the run whenever that is below
  \<open>2^53\<close>, so also 0. In every case the interval is present and is not \<open>NaN\<close>,
  and \<open>formatRecurrence\<close> on the pattern returns a string (no day-name lookup fails).
\<close>

theorem detectRecurrence_invariant:
  assumes "detectRecurrence text = Some r"
  shows "(\<forall>ds. days r = Some ds \<longrightarrow>
            rtype r = RWeekly \<and> ds \<noteq> [] \<and> sorted_wrt (<) ds \<and> set ds \<subseteq> {0..6}
            \<and> interval r = Some (Num 1))
         \<and> (days r = None \<longrightarrow>
              (\<exists>e. find (\<lambda>e. matchPattern (fst e) (toLowerCase text) \<noteq> None) recurrencePatterns
                     = Some e
                   \<and> rtype r = snd e
                   \<and> (case fst e of
                         Plain x \<Rightarrow> interval r = Some (Num 1)
                       | Capture pre cap post \<Rightarrow>
                           (\<exists>d. matchCap True pre cap post None (toLowerCase text) = Some d
                                \<and> d \<noteq> [] \<and> list_all isDigit d
                                \<and> interval r = Some (parseInt d)
                                \<and> parseInt d \<noteq> NaN
                                \<and> (decimalValue d < 9007199254740992 \<longrightarrow>
                                     interval r = Some (Num (decimalValue d)))))))
         \<and> (\<exists>x. interval r = Some x \<and> x \<noteq> NaN)
         \<and> (\<exists>out. formatRecurrence r = Inr out)"
proof (cases "patternLoop recurrencePatterns (toLowerCase text) = Some r")
  case True
  then have fp: "firstPattern (toLowerCase text) = Some r" by (simp only: patternLoop_firstPattern)
  from firstPattern_entry[OF fp] obtain e where d: "days r = None"
    and f: "find (\<lambda>e. matchPattern (fst e) (toLowerCase text) \<noteq> None) recurrencePatterns = Some e"
    and t: "rtype r = snd e"
    and c: "case fst e of
              Plain x \<Rightarrow> interval r = Some (Num 1)
            | Capture pre cap post \<Rightarrow>
                (\<exists>d. matchCap True pre cap post None (toLowerCase text) = Some d
                     \<and> d \<noteq> [] \<and> list_all isDigit d
                     \<and> interval r = Some (parseInt d)
                     \<and> parseInt d \<noteq> NaN
                     \<and> (decimalValue d < 9007199254740992 \<longrightarrow>
                          interval r = Some (Num (decimalValue d))))"
    by blast
  from c have i: "\<exists>x. interval r = Some x \<and> x \<noteq> NaN"
    by (cases "fst e") auto
  have o: "\<exists>out. formatRecurrence r = Inr out"
    using d by (simp add: formatRecurrence_def)
  have 1: "\<forall>ds. days r = Some ds \<longrightarrow>
            rtype r = RWeekly \<and> ds \<noteq> [] \<and> sorted_wrt (<) ds \<and> set ds \<subseteq> {0..6}
            \<and> interval r = Some (Num 1)"
    using d by simp
  have "find (\<lambda>e. matchPattern (fst e) (toLowerCase text) \<noteq> None) recurrencePatterns = Some e
        \<and> rtype r = snd e
        \<and> (case fst e of
              Plain x \<Rightarrow> interval r = Some (Num 1)
            | Capture pre cap post \<Rightarrow>
                (\<exists>d. matchCap True pre cap post None (toLowerCase text) = Some d
                     \<and> d \<noteq> [] \<and> list_all isDigit d
                     \<and> interval r = Some (parseInt d)
                     \<and> parseInt d \<noteq> NaN
                     \<and> (decimalValue d < 9007199254740992 \<longrightarrow>
                          interval r = Some (Num (decimalValue d)))))"
    using f t c by (rule conjI[OF _ conjI])
  then have 2: "days r = None \<longrightarrow>
              (\<exists>e. find (\<lambda>e. matchPattern (fst e) (toLowerCase text) \<noteq> None) recurrencePatterns
                     = Some e
                   \<and> rtype r = snd e
                   \<and> (case fst e of
                         Plain x \<Rightarrow> interval r = Some (Num 1)
                       | Capture pre cap post \<Rightarrow>
                           (\<exists>d. matchCap True pre cap post None (toLowerCase text) = Some d
                                \<and> d \<noteq> [] \<and> list_all isDigit d
                                \<and> interval r = Some (parseInt d)
                                \<and> parseInt d \<noteq> NaN
                                \<and> (decimalValue d < 9007199254740992 \<longrightarrow>
                                     interval r = Some (Num (decimalValue d))))))"
    by (intro impI exI[of _ e])
  show ?thesis by (rule conjI[OF 1 conjI[OF 2 conjI[OF i o]]])
next
  case False
  with assms obtain m1 where
    r: "r = \<lparr>rtype = RWeekly, days = Some (daysLoop (toLowerCase m1) dayNames 0),
             dayOfMonth = None, interval = Some (Num 1)\<rparr>"
    and ne: "daysLoop (toLowerCase m1) dayNames 0 \<noteq> []"
    by (auto simp: detectRecurrence_def Let_def split: option.splits if_splits)
  define ds where "ds = daysLoop (toLowerCase m1) dayNames 0"
  have bounds: "\<forall>d \<in> set ds. 0 \<le> d \<and> d < 7"
    using daysLoop_bounds[of _ "toLowerCase m1" dayNames 0] by (auto simp: ds_def dayNames_def)
  obtain d0 ds0 where cons: "ds = d0 # ds0" using ne by (cases ds) (auto simp: ds_def)
  from dayLabelsMap_ok[OF bounds] obtain ls where "dayLabelsMap ds = Inr ls" by auto
  then have f: "\<exists>out. formatRecurrence r = Inr out"
    using r cons by (simp add: formatRecurrence_def ds_def[symmetric])
  have sub: "set ds \<subseteq> {0..6}" using bounds by auto
  have srt: "sorted_wrt (<) ds" unfolding ds_def by (rule daysLoop_sorted)
  have rd: "days r = Some ds" and ri: "interval r = Some (Num 1)" and rt: "rtype r = RWeekly"
    using r by (simp_all add: ds_def)
  have 1: "\<forall>ds. days r = Some ds \<longrightarrow>
            rtype r = RWeekly \<and> ds \<noteq> [] \<and> sorted_wrt (<) ds \<and> set ds \<subseteq> {0..6}
            \<and> interval r = Some (Num 1)"
    using rd ri rt sub srt cons by simp
  have 2: "days r = None \<longrightarrow>
              (\<exists>e. find (\<lambda>e. matchPattern (fst e) (toLowerCase text) \<noteq> None) recurrencePatterns
                     = Some e
                   \<and> rtype r = snd e
                   \<and> (case fst e of
                         Plain x \<Rightarrow> interval r = Some (Num 1)
                       | Capture pre cap post \<Rightarrow>
                           (\<exists>d. matchCap True pre cap post None (toLowerCase text) = Some d
                                \<and> d \<noteq> [] \<and> list_all isDigit d
                                \<and> interval r = Some (parseInt d)
                                \<and> parseInt d \<noteq> NaN
                                \<and> (decimalValue d < 9007199254740992 \<longrightarrow>
                                     interval r = Some (Num (decimalValue d))))))"
    using rd by simp
  have 3: "\<exists>x. interval r = Some x \<and> x \<noteq> NaN" using ri by simp
  show ?thesis by (rule conjI[OF 1 conjI[OF 2 conjI[OF 3 f]]])
qed

theorem detectRecurrence_invariant_witness:
  "detectRecurrence ''every Monday and Wednesday'' =
     Some \<lparr>rtype = RWeekly, days = Some [1, 3], dayOfMonth = None, interval = Some (Num 1)\<rparr>
   \<and> (\<exists>out. formatRecurrence \<lparr>rtype = RWeekly, days = Some [1, 3], dayOfMonth = None,
                                interval = Some (Num 1)\<rparr> = Inr out)
   \<and> detectRecurrence ''every 3 weeks'' =
     Some \<lparr>rtype = RWeekly, days = None, dayOfMonth = None, interval = Some (Num 3)\<rparr>
   \<and> (\<exists>x. interval \<lparr>rtype = RWeekly, days = None, dayOfMonth = None, interval = Some (Num 3)\<rparr>
              = Some x \<and> x \<noteq> NaN)
   \<and> (\<exists>out. formatRecurrence \<lparr>rtype = RWeekly, days = None, dayOfMonth = None,
                                interval = Some (Num 3)\<rparr> = Inr out)"
proof -
  have a: "\<exists>out. formatRecurrence \<lparr>rtype = RWeekly, days = Some [1, 3], dayOfMonth = None,
                                interval = Some (Num 1)\<rparr> = Inr out"
    by (rule detectRecurrence_invariant[OF detectRecurrence_days_example,
          THEN conjunct2, THEN conjunct2, THEN conjunct2])
  have b: "(\<exists>x. interval \<lparr>rtype = RWeekly, days = None, dayOfMonth = None, interval = Some (Num 3)\<rparr>
              = Some x \<and> x \<noteq> NaN)
           \<and> (\<exists>out. formatRecurrence \<lparr>rtype = RWeekly, days = None, dayOfMonth = None,
                                interval = Some (Num 3)\<rparr> = Inr out)"
    by (rule detectRecurrence_invariant[OF detectRecurrence_weeks_example,
          THEN conjunct2, THEN conjunct2])
  show ?thesis
    by (rule conjI[OF detectRecurrence_days_example
                      conjI[OF a conjI[OF detectRecurrence_weeks_example b]]])
qed

theorem detectRecurrence_interval_zero:
  "detectRecurrence ''every 0 days'' =
     Some \<lparr>rtype = RDaily, days = None, dayOfMonth = None, interval = Some (Num 0)\<rparr>"
  by code_simp

text \<open>
  C1, as amended. For every input, \<open>parseNaturalLanguage\<close> returns a task whose title
  is the output of \<open>cleanTitle\<close>, which may be empty; whose timeframe is one of daily,
  weekly, monthly, once, and is once when neither a date nor a recurrence is found; and
  whose priority is one of low, medium, high, and is medium when no priority keyword
  occurs. The function has no fallback to the raw input: its caller \<open>handleSubmit\<close>
  has, and the title it submits, for an input that is not blank, is not empty: the
  cleaned title or, when that is empty, the trimmed input.
\<close>

theorem parseNaturalLanguage_fields:
  "title (parseNaturalLanguage chrono now input) = cleanTitle input
   \<and> timeframe (parseNaturalLanguage chrono now input) \<in> {Daily, Weekly, Monthly, Once}
   \<and> priority (parseNaturalLanguage chrono now input) \<in> {Low, Medium, High}
   \<and> (chrono input = [] \<and> detectRecurrence input = None \<longrightarrow>
        timeframe (parseNaturalLanguage chrono now input) = Once)
   \<and> ((\<forall>e \<in> set priorityKeywords. \<forall>k \<in> set (snd e). \<not> sublist k (toLowerCase input)) \<longrightarrow>
        priority (parseNaturalLanguage chrono now input) = Medium)
   \<and> (handleSubmitTitle chrono now input = None \<longleftrightarrow> trim input = [])
   \<and> (\<forall>t. handleSubmitTitle chrono now input = Some t \<longrightarrow>
          t \<noteq> [] \<and> t = (if cleanTitle input = [] then trim input else cleanTitle input))"
proof -
  have t: "title (parseNaturalLanguage chrono now input) = cleanTitle input"
    by (simp add: parseNaturalLanguage_def Let_def)
  have tf: "timeframe (parseNaturalLanguage chrono now input) \<in> {Daily, Weekly, Monthly, Once}"
    by (cases "timeframe (parseNaturalLanguage chrono now input)") auto
  have pr: "priority (parseNaturalLanguage chrono now input) \<in> {Low, Medium, High}"
    by (cases "priority (parseNaturalLanguage chrono now input)") auto
  have once: "timeframe (parseNaturalLanguage chrono now input) = Once"
    if "chrono input = []" "detectRecurrence input = None"
    using that by (simp add: parseNaturalLanguage_def Let_def detectTimeframe_def)
  have med: "priority (parseNaturalLanguage chrono now input) = Medium"
    if "\<forall>e \<in> set priorityKeywords. \<forall>k \<in> set (snd e). \<not> sublist k (toLowerCase input)"
    using detectPriority_default[OF that] by (simp add: parseNaturalLanguage_def Let_def)
  have none: "handleSubmitTitle chrono now input = None \<longleftrightarrow> trim input = []"
    by (simp add: handleSubmitTitle_def Let_def)
  have some: "t \<noteq> [] \<and> t = (if cleanTitle input = [] then trim input else cleanTitle input)"
    if "handleSubmitTitle chrono now input = Some t" for t
    using that t by (auto simp: handleSubmitTitle_def Let_def split: if_splits)
  from t tf pr once med none some show ?thesis by blast
qed

theorem parseNaturalLanguage_fields_witness:
  "timeframe (parseNaturalLanguage (\<lambda>_. []) 0 ''today'') = Once
   \<and> priority (parseNaturalLanguage (\<lambda>_. []) 0 ''today'') = Medium
   \<and> handleSubmitTitle (\<lambda>_. []) 0 ''today'' = Some ''today''"
proof -
  have r: "detectRecurrence ''today'' = None" by code_simp
  have "list_all (\<lambda>e. list_all (\<lambda>k. \<not> includesStr (toLowerCase ''today'') k) (snd e))
          priorityKeywords"
    by code_simp
  then have k: "\<forall>e \<in> set priorityKeywords. \<forall>k \<in> set (snd e). \<not> sublist k (toLowerCase ''today'')"
    by (simp add: list_all_iff includesStr_sublist)
  have c: "cleanTitle ''today'' = []" by code_simp
  have t: "trim ''today'' = ''today''" by code_simp
  have h: "handleSubmitTitle (\<lambda>_. []) 0 ''today'' = Some ''today''"
    using c t by (simp add: handleSubmitTitle_def Let_def parseNaturalLanguage_def)
  from parseNaturalLanguage_fields[of "\<lambda>_. []" 0 "''today''"] r k h
  show ?thesis by blast
qed

theorem parseNaturalLanguage_empty_title:
  "title (parseNaturalLanguage (\<lambda>_. []) 0 ''today'') = []"
  by code_simp

text \<open>
  C3, as amended. \<open>detectTimeframe\<close>: when a recurrence is present and the text
  contains "daily" or "every day" the result is daily; otherwise, when a recurrence is
  present and the text contains "weekly" or "every week" or "every", white space, one
  or more word characters and "day" (the expression \<open>every\s+\w+day\<close>),
  weekly; otherwise, when a recurrence is present and the text
  contains "monthly" or "every month", monthly. In every other case, also when a
  recurrence is present and none of the three branches matched, a due date decides by
  its distance from now (at most one day: daily, at most seven: weekly, at most thirty:
  monthly, beyond: once), and without a due date the result is once.
\<close>

theorem detectTimeframe_branches:
  "detectTimeframe text hasRecurrence due now =
    (if hasRecurrence \<and> (sublist ''daily'' (toLowerCase text) \<or> sublist ''every day'' (toLowerCase text))
     then Daily
     else if hasRecurrence \<and> (sublist ''weekly'' (toLowerCase text)
                \<or> sublist ''every week'' (toLowerCase text)
                \<or> (\<exists>u sp w v. toLowerCase text = u @ ''every'' @ sp @ w @ ''day'' @ v
                       \<and> sp \<noteq> [] \<and> list_all isSpace sp \<and> w \<noteq> [] \<and> list_all isWord w))
     then Weekly
     else if hasRecurrence \<and> (sublist ''monthly'' (toLowerCase text)
                \<or> sublist ''every month'' (toLowerCase text))
     then Monthly
     else (case due of
             None \<Rightarrow> Once
           | Some d \<Rightarrow>
               if d - now \<le> 1 * 86400000 then Daily
               else if d - now \<le> 7 * 86400000 then Weekly
               else if d - now \<le> 30 * 86400000 then Monthly
               else Once))"
  unfolding detectTimeframe_cases[of "text" hasRecurrence due now]
    test_everyWordDay[OF noUpper_toLowerCase, of "text"] ..

theorem detectTimeframe_recurrence_falls_through:
  "detectRecurrence ''every 3 weeks'' \<noteq> None
   \<and> detectTimeframe ''every 3 weeks'' (detectRecurrence ''every 3 weeks'' \<noteq> None) (Some 0) 0 = Daily"
  by code_simp

text \<open>
  C9, as amended. \<open>formatRecurrence\<close> renders a daily pattern with interval 1 as
  "Daily" and with another interval \<open>n\<close> as "Every n days" ("Every 3 days" for 3);
  a weekly pattern whose \<open>days\<close> is present, non-empty and within 0..6 as "Every "
  followed by the first three letters of the day names as \<open>dayNames\<close> has them, in
  lower case and separated by ", " ("Every mon, wed"), whatever the interval; and a
  pattern of an unrecognised type as the empty string.
\<close>

theorem formatRecurrence_renders:
  "(rtype r = RDaily \<and> interval r = Some (Num 1) \<longrightarrow> formatRecurrence r = Inr ''Daily'')
   \<and> (rtype r = RDaily \<and> interval r = Some (Num n) \<and> n \<noteq> 1 \<longrightarrow>
        formatRecurrence r = Inr (''Every '' @ showNat n @ '' days''))
   \<and> (rtype r = RWeekly \<and> days r = Some ds \<and> ds \<noteq> [] \<and> (\<forall>d \<in> set ds. 0 \<le> d \<and> d \<le> 6) \<longrightarrow>
        formatRecurrence r = Inr (''Every '' @ join '', '' (map (\<lambda>d. take 3 (dayNames ! nat d)) ds)))
   \<and> (rtype r = ROther \<longrightarrow> formatRecurrence r = Inr [])"
  by (rule formatRecurrence_cases)

theorem formatRecurrence_renders_witness:
  "formatRecurrence \<lparr>rtype = RDaily, days = None, dayOfMonth = None, interval = Some (Num 1)\<rparr>
     = Inr ''Daily''
   \<and> formatRecurrence \<lparr>rtype = RDaily, days = None, dayOfMonth = None, interval = Some (Num 3)\<rparr>
     = Inr ''Every 3 days''
   \<and> formatRecurrence \<lparr>rtype = RWeekly, days = Some [1, 3], dayOfMonth = None, interval = Some (Num 2)\<rparr>
     = Inr ''Every mon, wed''
   \<and> formatRecurrence \<lparr>rtype = ROther, days = None, dayOfMonth = None, interval = None\<rparr> = Inr []"
proof -
  have three: "showNat 3 = ''3''" by code_simp
  have labels: "join '', '' (map (\<lambda>d. take 3 (dayNames ! nat d)) [1, 3]) = ''mon, wed''"
    by code_simp
  show ?thesis
    using formatRecurrence_renders[of "\<lparr>rtype = RDaily, days = None, dayOfMonth = None,
                                        interval = Some (Num 1)\<rparr>" 1 "[]"]
      formatRecurrence_renders[of "\<lparr>rtype = RDaily, days = None, dayOfMonth = None,
                                     interval = Some (Num 3)\<rparr>" 3 "[]"]
      formatRecurrence_renders[of "\<lparr>rtype = RWeekly, days = Some [1, 3], dayOfMonth = None,
                                     interval = Some (Num 2)\<rparr>" 2 "[1, 3]"]
      formatRecurrence_renders[of "\<lparr>rtype = ROther, days = None, dayOfMonth = None,
                                     interval = None\<rparr>" 0 "[]"]
      three labels
    by simp
qed

theorem formatRecurrence_lower_case_labels:
  "formatRecurrence \<lparr>rtype = RWeekly, days = Some [1, 3], dayOfMonth = None, interval = Some (Num 1)\<rparr>
     = Inr ''Every mon, wed''
   \<and> formatRecurrence \<lparr>rtype = RWeekly, days = Some [1, 3], dayOfMonth = None,
                        interval = Some (Num 1)\<rparr> \<noteq> Inr ''Every Mon, Wed''"
  by code_simp

text \<open>
  C4, as amended. \<open>parseInput\<close> deduplicates the candidates by the lower-case form
  of the cleaned segment text: the titles it returns are the cleaned segments of at
  least three characters with, for each lower-case form, the first occurrence kept and
  the later ones dropped, so no two titles are equal up to case.
  On "clean, clean the house" the two cleaned texts "Clean" and "Clean the house" differ
  and both are returned; on "clean, Clean" one candidate is returned.
\<close>

theorem parseInput_deduplicates:
  "map ctitle (parseInput input) = keepFirst toLowerCase (cleanedSegments input)
   \<and> distinct (map (\<lambda>t. toLowerCase (ctitle t)) (parseInput input))
   \<and> map ctitle (parseInput ''clean, clean the house'') = [''Clean'', ''Clean the house'']
   \<and> map ctitle (parseInput ''clean, Clean'') = [''Clean'']"
proof -
  have "distinct (map toLowerCase (map ctitle (parseInput input)))"
    unfolding parseInput_titles by (rule keepFirst_distinct)
  then have d: "distinct (map (\<lambda>t. toLowerCase (ctitle t)) (parseInput input))"
    by (simp add: comp_def)
  have e1: "map ctitle (parseInput ''clean, clean the house'') = [''Clean'', ''Clean the house'']"
    by code_simp
  have e2: "map ctitle (parseInput ''clean, Clean'') = [''Clean'']"
    by code_simp
  from parseInput_titles d e1 e2 show ?thesis by blast
qed

theorem parseInput_clean_two_candidates:
  "length (parseInput ''clean, clean the house'') = 2"
  by code_simp

text \<open>
  C6, as amended. \<open>cleanTitle\<close> is not idempotent for every input: the removal of a
  later pattern can bring the parts of an earlier pattern together. It is idempotent on
  every input whose cleaned title the six removal patterns leave unchanged:
  for such \<open>s\<close>, \<open>cleanTitle (cleanTitle s) = cleanTitle s\<close>.
\<close>

theorem cleanTitle_idempotent_when_stable:
  assumes "removePatterns patternsToRemove (cleanTitle s) = cleanTitle s"
  shows "cleanTitle (cleanTitle s) = cleanTitle s"
  using assms by (rule cleanTitle_stable)

theorem cleanTitle_idempotent_when_stable_witness:
  "removePatterns patternsToRemove (cleanTitle ''buy milk today'') = cleanTitle ''buy milk today''
   \<and> cleanTitle (cleanTitle ''buy milk today'') = cleanTitle ''buy milk today''"
proof -
  have h: "removePatterns patternsToRemove (cleanTitle ''buy milk today'')
           = cleanTitle ''buy milk today''"
    by code_simp
  from h cleanTitle_idempotent_when_stable[OF h] show ?thesis by simp
qed

theorem cleanTitle_not_idempotent:
  "cleanTitle ''every urgent day'' = ''Every day''
   \<and> cleanTitle (cleanTitle ''every urgent day'') = []"
  by code_simp



end
